theory Spec2Isabelle
  imports Main "HOL-Library.Word"
begin

section \<open>YieldFarmingStrategy: the staking ledger\<close>

text \<open>
  A shallow embedding of the Solidity contract \<open>YieldFarmingStrategy\<close>
  (pragma \<open>^0.8.19\<close>). Every \<open>uint256\<close> is a natural number; the
  arithmetic of Solidity 0.8 is checked, so each \<open>+\<close>, \<open>-\<close>, \<open>*\<close> and
  \<open>/\<close> of the source is a function that returns the panic the EVM would raise
  (\<open>0x11\<close> on overflow and underflow, \<open>0x12\<close> on division by zero) instead of a
  number. A \<open>require\<close> that fails is \<open>Revert\<close> with the message of the source, an
  array index out of range is panic \<open>0x32\<close>. A function of the contract takes the
  transaction environment and the contract state and returns either the error or the
  new state; a reverted call leaves no trace. Calls are atomic and the tokens never call
  back into the contract, so the \<open>nonReentrant\<close> guard of \<open>deposit\<close>, \<open>withdraw\<close> and
  \<open>emergencyWithdraw\<close> never fires and is left out.
\<close>

subsection \<open>Values, errors, checked arithmetic\<close>

type_synonym address = "160 word"

datatype error = Revert string | Panic nat

definition MAX_UINT256 :: nat where
  "MAX_UINT256 = 115792089237316195423570985008687907853269984665640564039457584007913129639935"

definition PRECISION :: nat where
  "PRECISION = 1000000000000"

definition MAX_FEE :: nat where
  "MAX_FEE = 1000"

definition bindR :: "error + 'a \<Rightarrow> ('a \<Rightarrow> error + 'b) \<Rightarrow> error + 'b" where
  "bindR m f = (case m of Inl err \<Rightarrow> Inl err | Inr x \<Rightarrow> f x)"

definition add256 :: "nat \<Rightarrow> nat \<Rightarrow> error + nat" where
  "add256 a b = (if a + b \<le> MAX_UINT256 then Inr (a + b) else Inl (Panic 0x11))"

definition sub256 :: "nat \<Rightarrow> nat \<Rightarrow> error + nat" where
  "sub256 a b = (if b \<le> a then Inr (a - b) else Inl (Panic 0x11))"

definition mul256 :: "nat \<Rightarrow> nat \<Rightarrow> error + nat" where
  "mul256 a b = (if a * b \<le> MAX_UINT256 then Inr (a * b) else Inl (Panic 0x11))"

definition div256 :: "nat \<Rightarrow> nat \<Rightarrow> error + nat" where
  "div256 a b = (if b = 0 then Inl (Panic 0x12) else Inr (a div b))"

subsection \<open>Storage\<close>

text \<open>The two structs. Both have a field \<open>lastRewardBlock\<close> in the source; the one of
  \<open>Position\<close> is \<open>posLastRewardBlock\<close> here.\<close>

record Position =
  amount :: nat
  posLastRewardBlock :: nat
  rewardDebt :: nat
  lockEndTime :: nat
  isActive :: bool

record PoolInfo =
  stakingToken :: address
  rewardToken :: address
  allocPoint :: nat
  lastRewardBlock :: nat
  accRewardPerShare :: nat
  totalStaked :: nat
  minLockPeriod :: nat
  isEmergencyWithdrawEnabled :: bool

datatype event =
    Deposit address nat nat
  | Withdraw address nat nat
  | EmergencyWithdraw address nat nat
  | RewardClaimed address nat nat
  | PoolAdded nat address address
  | PositionRebalanced address nat nat

text \<open>
  Modelled from the spec: the Token Transfer Port. The ERC-20 contracts behind
  \<open>IERC20\<close> and the \<open>SafeERC20\<close> wrappers are imported from OpenZeppelin and are
  not part of the repository. They are a ledger of balances per token and holder, and of
  allowances per token, holder and spender; a transfer fails (and \<open>SafeERC20\<close> reverts)
  exactly when the payer's balance, or for \<open>transferFrom\<close> the allowance, is short.
\<close>

record tokens =
  balanceOf :: "address \<Rightarrow> address \<Rightarrow> nat"
  allowance :: "address \<Rightarrow> address \<Rightarrow> address \<Rightarrow> nat"

text \<open>
  The contract's storage, the state of the inherited \<open>Ownable\<close> (\<open>owner\<close>) and
  \<open>Pausable\<close> (\<open>paused\<close>), the contract's own address, the token ledger and the
  log of emitted events, oldest first. A Solidity mapping is a total function whose
  untouched entries are zero.
\<close>

record state =
  poolInfo :: "PoolInfo list"
  userPositions :: "nat \<Rightarrow> address \<Rightarrow> Position"
  authorizedRebalancers :: "address \<Rightarrow> bool"
  rewardPerBlock :: nat
  totalAllocPoint :: nat
  emergencyWithdrawFee :: nat
  owner :: address
  paused :: bool
  this :: address
  bank :: tokens
  events :: "event list"

record env =
  msg_sender :: address
  block_number :: nat
  block_timestamp :: nat

definition zeroPosition :: Position where
  "zeroPosition = \<lparr>amount = 0, posLastRewardBlock = 0, rewardDebt = 0, lockEndTime = 0,
     isActive = False\<rparr>"

text \<open>The state after deployment by \<open>deployer\<close> at address \<open>self\<close>, with the token
  ledger as it is at that moment.\<close>

definition constructor :: "address \<Rightarrow> address \<Rightarrow> tokens \<Rightarrow> state" where
  "constructor deployer self ledger =
     \<lparr>poolInfo = [],
      userPositions = (\<lambda>pid user. zeroPosition),
      authorizedRebalancers = (\<lambda>a. a = deployer),
      rewardPerBlock = 1000000000000000000,
      totalAllocPoint = 0,
      emergencyWithdrawFee = 500,
      owner = deployer,
      paused = False,
      this = self,
      bank = ledger,
      events = []\<rparr>"

definition setPool :: "nat \<Rightarrow> PoolInfo \<Rightarrow> state \<Rightarrow> state" where
  "setPool pid pool s = s\<lparr>poolInfo := (poolInfo s)[pid := pool]\<rparr>"

definition setPosition :: "nat \<Rightarrow> address \<Rightarrow> Position \<Rightarrow> state \<Rightarrow> state" where
  "setPosition pid user position s =
     s\<lparr>userPositions := (userPositions s)(pid := (userPositions s pid)(user := position))\<rparr>"

definition emit :: "event \<Rightarrow> state \<Rightarrow> state" where
  "emit ev s = s\<lparr>events := events s @ [ev]\<rparr>"

subsection \<open>Token transfers\<close>

text \<open>
  Modelled from the spec: \<open>TransferOut\<close> and \<open>TransferIn\<close> of the Token Transfer
  Port, that is \<open>safeTransfer\<close> and \<open>safeTransferFrom\<close> of \<open>SafeERC20\<close> on a
  standard ERC-20 token. \<open>moveTokens\<close> debits the payer and then credits the payee;
  \<open>safeTransfer\<close> pays out of the contract's own balance and reverts when it is short;
  \<open>safeTransferFrom\<close> spends the allowance the payer has given the contract and reverts
  when the allowance or the payer's balance is short. Two conventions of particular
  token implementations are left out: an allowance of \<open>2 ^ 256 - 1\<close> that is never
  spent, and the refusal to pay the zero address, which never sends a transaction.
\<close>

definition moveTokens :: "address \<Rightarrow> address \<Rightarrow> address \<Rightarrow> nat \<Rightarrow> tokens \<Rightarrow> tokens" where
  "moveTokens token src dst value t =
     (let debited = (balanceOf t token)(src := balanceOf t token src - value);
          credited = debited(dst := debited dst + value)
      in t\<lparr>balanceOf := (balanceOf t)(token := credited)\<rparr>)"

definition safeTransfer :: "address \<Rightarrow> address \<Rightarrow> nat \<Rightarrow> state \<Rightarrow> error + state" where
  "safeTransfer token dst value s =
     (if balanceOf (bank s) token (this s) < value
      then Inl (Revert ''ERC20: transfer amount exceeds balance'')
      else Inr (s\<lparr>bank := moveTokens token (this s) dst value (bank s)\<rparr>))"

definition safeTransferFrom :: "address \<Rightarrow> address \<Rightarrow> address \<Rightarrow> nat \<Rightarrow> state \<Rightarrow> error + state"
  where
  "safeTransferFrom token src dst value s =
     (if allowance (bank s) token src (this s) < value
      then Inl (Revert ''ERC20: insufficient allowance'')
      else if balanceOf (bank s) token src < value
      then Inl (Revert ''ERC20: transfer amount exceeds balance'')
      else
        (let t = bank s;
             spent = t\<lparr>allowance := (allowance t)(token := (allowance t token)
                        (src := (allowance t token src)
                           (this s := allowance t token src (this s) - value)))\<rparr>
         in Inr (s\<lparr>bank := moveTokens token src dst value spent\<rparr>)))"

subsection \<open>Accrual\<close>

text \<open>\<open>updatePool\<close>, lines 243 to 260.\<close>

definition updatePool :: "env \<Rightarrow> nat \<Rightarrow> state \<Rightarrow> error + state" where
  "updatePool e pid s =
     (if \<not> pid < length (poolInfo s) then Inl (Panic 0x32)
      else
        let pool = poolInfo s ! pid in
        if block_number e \<le> lastRewardBlock pool then Inr s
        else if totalStaked pool = 0
        then Inr (setPool pid (pool\<lparr>lastRewardBlock := block_number e\<rparr>) s)
        else
          bindR (sub256 (block_number e) (lastRewardBlock pool)) (\<lambda>multiplier.
          bindR (mul256 multiplier (rewardPerBlock s)) (\<lambda>emission.
          bindR (mul256 emission (allocPoint pool)) (\<lambda>weighted.
          bindR (div256 weighted (totalAllocPoint s)) (\<lambda>reward.
          bindR (mul256 reward PRECISION) (\<lambda>scaled.
          bindR (div256 scaled (totalStaked pool)) (\<lambda>perShare.
          bindR (add256 (accRewardPerShare pool) perShare) (\<lambda>acc.
          Inr (setPool pid
                 (pool\<lparr>accRewardPerShare := acc, lastRewardBlock := block_number e\<rparr>) s)))))))))"

text \<open>\<open>massUpdatePools\<close>: the loop over \<open>pid = 0, ..., length - 1\<close>, stopping at
  the first call that reverts.\<close>

fun updatePools :: "env \<Rightarrow> nat list \<Rightarrow> state \<Rightarrow> error + state" where
  "updatePools e [] s = Inr s"
| "updatePools e (pid # pids) s = bindR (updatePool e pid s) (updatePools e pids)"

definition massUpdatePools :: "env \<Rightarrow> state \<Rightarrow> error + state" where
  "massUpdatePools e s = updatePools e [0 ..< length (poolInfo s)] s"

text \<open>\<open>safeRewardTransfer\<close>, lines 265 to 272.\<close>

definition safeRewardTransfer :: "address \<Rightarrow> address \<Rightarrow> nat \<Rightarrow> state \<Rightarrow> error + state" where
  "safeRewardTransfer token dst value s =
     (let balance = balanceOf (bank s) token (this s) in
      if value > balance then safeTransfer token dst balance s
      else safeTransfer token dst value s)"

text \<open>
  The settlement of the pending reward, written out twice in the source with the same
  text: lines 113 to 117 of \<open>deposit\<close> and lines 153 to 157 of \<open>withdraw\<close>.
\<close>

definition claimPending :: "env \<Rightarrow> nat \<Rightarrow> state \<Rightarrow> error + state" where
  "claimPending e pid s =
     (let pool = poolInfo s ! pid;
          position = userPositions s pid (msg_sender e) in
      bindR (mul256 (amount position) (accRewardPerShare pool)) (\<lambda>product.
      bindR (div256 product PRECISION) (\<lambda>accrued.
      bindR (sub256 accrued (rewardDebt position)) (\<lambda>pending.
      if pending > 0
      then bindR (safeRewardTransfer (rewardToken pool) (msg_sender e) pending s) (\<lambda>s1.
           Inr (emit (RewardClaimed (msg_sender e) pid pending) s1))
      else Inr s))))"

subsection \<open>The position ledger\<close>

text \<open>\<open>deposit\<close>, lines 102 to 134. The modifier \<open>whenNotPaused\<close> runs before
  the body.\<close>

definition deposit :: "env \<Rightarrow> nat \<Rightarrow> nat \<Rightarrow> state \<Rightarrow> error + state" where
  "deposit e pid value s =
     (if paused s then Inl (Revert ''Pausable: paused'')
      else if \<not> pid < length (poolInfo s) then Inl (Revert ''Invalid pool ID'')
      else if \<not> value > 0 then Inl (Revert ''Amount must be greater than 0'')
      else
        bindR (updatePool e pid s) (\<lambda>s1.
        bindR (if amount (userPositions s1 pid (msg_sender e)) > 0
               then claimPending e pid s1 else Inr s1) (\<lambda>s2.
        bindR (safeTransferFrom (stakingToken (poolInfo s2 ! pid)) (msg_sender e) (this s2)
                 value s2) (\<lambda>s3.
        let pool = poolInfo s3 ! pid;
            position = userPositions s3 pid (msg_sender e) in
        bindR (add256 (amount position) value) (\<lambda>newAmount.
        bindR (mul256 newAmount (accRewardPerShare pool)) (\<lambda>product.
        bindR (div256 product PRECISION) (\<lambda>debt.
        bindR (add256 (block_timestamp e) (minLockPeriod pool)) (\<lambda>lockEnd.
        bindR (add256 (totalStaked pool) value) (\<lambda>staked.
        Inr (emit (Deposit (msg_sender e) pid value)
              (setPool pid (pool\<lparr>totalStaked := staked\<rparr>)
                (setPosition pid (msg_sender e)
                   (position\<lparr>amount := newAmount,
                             posLastRewardBlock := block_number e,
                             rewardDebt := debt,
                             lockEndTime := lockEnd,
                             isActive := True\<rparr>) s3))))))))))))"

text \<open>\<open>withdraw\<close>, lines 141 to 172. There is no \<open>whenNotPaused\<close> here.\<close>

definition withdraw :: "env \<Rightarrow> nat \<Rightarrow> nat \<Rightarrow> state \<Rightarrow> error + state" where
  "withdraw e pid value s =
     (if \<not> pid < length (poolInfo s) then Inl (Revert ''Invalid pool ID'')
      else if \<not> amount (userPositions s pid (msg_sender e)) \<ge> value
      then Inl (Revert ''Insufficient balance'')
      else if \<not> block_timestamp e \<ge> lockEndTime (userPositions s pid (msg_sender e))
      then Inl (Revert ''Position still locked'')
      else
        bindR (updatePool e pid s) (\<lambda>s1.
        bindR (claimPending e pid s1) (\<lambda>s2.
        let pool = poolInfo s2 ! pid;
            position = userPositions s2 pid (msg_sender e) in
        bindR (sub256 (amount position) value) (\<lambda>newAmount.
        bindR (mul256 newAmount (accRewardPerShare pool)) (\<lambda>product.
        bindR (div256 product PRECISION) (\<lambda>debt.
        bindR (sub256 (totalStaked pool) value) (\<lambda>staked.
        bindR (safeTransfer (stakingToken pool) (msg_sender e) value
                (setPool pid (pool\<lparr>totalStaked := staked\<rparr>)
                  (setPosition pid (msg_sender e)
                     (position\<lparr>amount := newAmount,
                               rewardDebt := debt,
                               isActive := (if newAmount = 0 then False
                                            else isActive position)\<rparr>) s2))) (\<lambda>s3.
        Inr (emit (Withdraw (msg_sender e) pid value) s3)))))))))"

text \<open>\<open>emergencyWithdraw\<close>, lines 178 to 203.\<close>

definition emergencyWithdraw :: "env \<Rightarrow> nat \<Rightarrow> state \<Rightarrow> error + state" where
  "emergencyWithdraw e pid s =
     (if \<not> pid < length (poolInfo s) then Inl (Revert ''Invalid pool ID'')
      else
        let pool = poolInfo s ! pid;
            position = userPositions s pid (msg_sender e) in
        if \<not> amount position > 0 then Inl (Revert ''No position to withdraw'')
        else if \<not> isEmergencyWithdrawEnabled pool
        then Inl (Revert ''Emergency withdraw not enabled'')
        else
          bindR (mul256 (amount position) (emergencyWithdrawFee s)) (\<lambda>product.
          bindR (div256 product 10000) (\<lambda>fee.
          bindR (sub256 (amount position) fee) (\<lambda>amountAfterFee.
          bindR (sub256 (totalStaked pool) (amount position)) (\<lambda>staked.
          bindR (safeTransfer (stakingToken pool) (msg_sender e) amountAfterFee
                  (setPool pid (pool\<lparr>totalStaked := staked\<rparr>)
                    (setPosition pid (msg_sender e)
                       (position\<lparr>amount := 0, rewardDebt := 0, isActive := False\<rparr>) s)))
            (\<lambda>s1.
          Inr (emit (EmergencyWithdraw (msg_sender e) pid amountAfterFee) s1)))))))"

text \<open>\<open>rebalancePosition\<close>, lines 211 to 227.\<close>

definition rebalancePosition :: "env \<Rightarrow> nat \<Rightarrow> address \<Rightarrow> nat \<Rightarrow> state \<Rightarrow> error + state" where
  "rebalancePosition e pid user newAmount s =
     (if \<not> authorizedRebalancers s (msg_sender e) then Inl (Revert ''Not authorized'')
      else if \<not> pid < length (poolInfo s) then Inl (Revert ''Invalid pool ID'')
      else if \<not> isActive (userPositions s pid user) then Inl (Revert ''Position not active'')
      else
        bindR (updatePool e pid s) (\<lambda>s1.
        Inr (emit (PositionRebalanced user pid newAmount) s1)))"

subsection \<open>Administration\<close>

text \<open>The modifier \<open>onlyOwner\<close> of \<open>Ownable\<close> and, further down, \<open>_pause\<close> and
  \<open>_unpause\<close> of \<open>Pausable\<close> (OpenZeppelin 4.x), with their revert messages.\<close>

definition onlyOwner :: "env \<Rightarrow> state \<Rightarrow> error + state" where
  "onlyOwner e s =
     (if owner s = msg_sender e then Inr s
      else Inl (Revert ''Ownable: caller is not the owner''))"

text \<open>\<open>addPool\<close>, lines 69 to 95.\<close>

definition addPool :: "env \<Rightarrow> address \<Rightarrow> address \<Rightarrow> nat \<Rightarrow> nat \<Rightarrow> state \<Rightarrow> error + state" where
  "addPool e stakingTok rewardTok weight lockPeriod s =
     bindR (onlyOwner e s) (\<lambda>s0.
     if \<not> stakingTok \<noteq> 0 then Inl (Revert ''Invalid staking token'')
     else if \<not> rewardTok \<noteq> 0 then Inl (Revert ''Invalid reward token'')
     else
       bindR (massUpdatePools e s0) (\<lambda>s1.
       bindR (add256 (totalAllocPoint s1) weight) (\<lambda>total.
       let s2 = s1\<lparr>totalAllocPoint := total,
                   poolInfo := poolInfo s1 @
                     [\<lparr>stakingToken = stakingTok,
                       rewardToken = rewardTok,
                       allocPoint = weight,
                       lastRewardBlock = block_number e,
                       accRewardPerShare = 0,
                       totalStaked = 0,
                       minLockPeriod = lockPeriod,
                       isEmergencyWithdrawEnabled = False\<rparr>]\<rparr>
       in bindR (sub256 (length (poolInfo s2)) 1) (\<lambda>pid.
          Inr (emit (PoolAdded pid stakingTok rewardTok) s2)))))"

definition setRewardPerBlock :: "env \<Rightarrow> nat \<Rightarrow> state \<Rightarrow> error + state" where
  "setRewardPerBlock e value s =
     bindR (onlyOwner e s) (\<lambda>s0.
     bindR (massUpdatePools e s0) (\<lambda>s1.
     Inr (s1\<lparr>rewardPerBlock := value\<rparr>)))"

definition setEmergencyWithdrawFee :: "env \<Rightarrow> nat \<Rightarrow> state \<Rightarrow> error + state" where
  "setEmergencyWithdrawFee e fee s =
     bindR (onlyOwner e s) (\<lambda>s0.
     if \<not> fee \<le> MAX_FEE then Inl (Revert ''Fee too high'')
     else Inr (s0\<lparr>emergencyWithdrawFee := fee\<rparr>))"

definition toggleEmergencyWithdraw :: "env \<Rightarrow> nat \<Rightarrow> bool \<Rightarrow> state \<Rightarrow> error + state" where
  "toggleEmergencyWithdraw e pid enabled s =
     bindR (onlyOwner e s) (\<lambda>s0.
     if \<not> pid < length (poolInfo s0) then Inl (Panic 0x32)
     else Inr (setPool pid ((poolInfo s0 ! pid)\<lparr>isEmergencyWithdrawEnabled := enabled\<rparr>) s0))"

definition setAuthorizedRebalancer :: "env \<Rightarrow> address \<Rightarrow> bool \<Rightarrow> state \<Rightarrow> error + state" where
  "setAuthorizedRebalancer e rebalancer authorized s =
     bindR (onlyOwner e s) (\<lambda>s0.
     Inr (s0\<lparr>authorizedRebalancers := (authorizedRebalancers s0)(rebalancer := authorized)\<rparr>))"

definition pause :: "env \<Rightarrow> state \<Rightarrow> error + state" where
  "pause e s =
     bindR (onlyOwner e s) (\<lambda>s0.
     if paused s0 then Inl (Revert ''Pausable: paused'')
     else Inr (s0\<lparr>paused := True\<rparr>))"

definition unpause :: "env \<Rightarrow> state \<Rightarrow> error + state" where
  "unpause e s =
     bindR (onlyOwner e s) (\<lambda>s0.
     if \<not> paused s0 then Inl (Revert ''Pausable: not paused'')
     else Inr (s0\<lparr>paused := False\<rparr>))"

text \<open>The two functions every \<open>Ownable\<close> contract inherits (OpenZeppelin 4.x); they
  are callable on the deployed contract although its own source never mentions them.\<close>

definition transferOwnership :: "env \<Rightarrow> address \<Rightarrow> state \<Rightarrow> error + state" where
  "transferOwnership e newOwner s =
     bindR (onlyOwner e s) (\<lambda>s0.
     if \<not> newOwner \<noteq> 0 then Inl (Revert ''Ownable: new owner is the zero address'')
     else Inr (s0\<lparr>owner := newOwner\<rparr>))"

definition renounceOwnership :: "env \<Rightarrow> state \<Rightarrow> error + state" where
  "renounceOwnership e s = bindR (onlyOwner e s) (\<lambda>s0. Inr (s0\<lparr>owner := 0\<rparr>))"

subsection \<open>Transactions\<close>

text \<open>
  The external and public functions that change storage, as calls. A transaction that
  reverts leaves the state as it was. Between two transactions the token contracts may
  do anything (mints, transfers and approvals by other parties): \<open>Tokens\<close> replaces
  the ledger.
\<close>

datatype call =
    Call_addPool address address nat nat
  | Call_deposit nat nat
  | Call_withdraw nat nat
  | Call_emergencyWithdraw nat
  | Call_rebalancePosition nat address nat
  | Call_massUpdatePools
  | Call_updatePool nat
  | Call_setRewardPerBlock nat
  | Call_setEmergencyWithdrawFee nat
  | Call_toggleEmergencyWithdraw nat bool
  | Call_setAuthorizedRebalancer address bool
  | Call_pause
  | Call_unpause
  | Call_transferOwnership address
  | Call_renounceOwnership

fun dispatch :: "env \<Rightarrow> call \<Rightarrow> state \<Rightarrow> error + state" where
  "dispatch e (Call_addPool st rt w l) s = addPool e st rt w l s"
| "dispatch e (Call_deposit pid v) s = deposit e pid v s"
| "dispatch e (Call_withdraw pid v) s = withdraw e pid v s"
| "dispatch e (Call_emergencyWithdraw pid) s = emergencyWithdraw e pid s"
| "dispatch e (Call_rebalancePosition pid u v) s = rebalancePosition e pid u v s"
| "dispatch e Call_massUpdatePools s = massUpdatePools e s"
| "dispatch e (Call_updatePool pid) s = updatePool e pid s"
| "dispatch e (Call_setRewardPerBlock v) s = setRewardPerBlock e v s"
| "dispatch e (Call_setEmergencyWithdrawFee v) s = setEmergencyWithdrawFee e v s"
| "dispatch e (Call_toggleEmergencyWithdraw pid b) s = toggleEmergencyWithdraw e pid b s"
| "dispatch e (Call_setAuthorizedRebalancer a b) s = setAuthorizedRebalancer e a b s"
| "dispatch e Call_pause s = pause e s"
| "dispatch e Call_unpause s = unpause e s"
| "dispatch e (Call_transferOwnership a) s = transferOwnership e a s"
| "dispatch e Call_renounceOwnership s = renounceOwnership e s"

datatype action = Tx env call | Tokens tokens

fun step :: "action \<Rightarrow> state \<Rightarrow> state" where
  "step (Tx e c) s = (case dispatch e c s of Inl err \<Rightarrow> s | Inr s' \<Rightarrow> s')"
| "step (Tokens ledger) s = s\<lparr>bank := ledger\<rparr>"

fun run :: "state \<Rightarrow> action list \<Rightarrow> state" where
  "run s [] = s"
| "run s (a # as) = run (step a s) as"

subsection \<open>Observations on states\<close>

text \<open>The sum of \<open>position.amount\<close> over the positions of a pool with
  \<open>isActive == true\<close>.\<close>

definition activeStake :: "state \<Rightarrow> nat \<Rightarrow> nat" where
  "activeStake s pid =
     (\<Sum>user | isActive (userPositions s pid user). amount (userPositions s pid user))"

text \<open>
  The invariant of the ledger: a position is active exactly when it holds a stake, a
  pool's \<open>totalStaked\<close> is the sum of all stakes in it, and no stake sits under an index
  beyond the registry.
\<close>

definition consistent :: "state \<Rightarrow> bool" where
  "consistent s \<longleftrightarrow>
     (\<forall>pid user. isActive (userPositions s pid user) = (0 < amount (userPositions s pid user)))
     \<and> (\<forall>pid < length (poolInfo s).
           totalStaked (poolInfo s ! pid) = (\<Sum>user \<in> UNIV. amount (userPositions s pid user)))
     \<and> (\<forall>pid user. \<not> pid < length (poolInfo s) \<longrightarrow> amount (userPositions s pid user) = 0)"

text \<open>What accrual may change between two states: in each pool the accumulator, and only
  upwards, and the accrual height; nothing else.\<close>

definition accrualOnly :: "state \<Rightarrow> state \<Rightarrow> bool" where
  "accrualOnly s s' \<longleftrightarrow>
     (\<exists>pools. s' = s\<lparr>poolInfo := pools\<rparr> \<and> length pools = length (poolInfo s)
        \<and> (\<forall>i < length pools. \<exists>acc lb. accRewardPerShare (poolInfo s ! i) \<le> acc
              \<and> pools ! i = (poolInfo s ! i)\<lparr>accRewardPerShare := acc, lastRewardBlock := lb\<rparr>))"

text \<open>No pool is lost and no accumulator is lower in \<open>s'\<close> than in \<open>s\<close>.\<close>

definition accNotBelow :: "state \<Rightarrow> state \<Rightarrow> bool" where
  "accNotBelow s s' \<longleftrightarrow>
     length (poolInfo s) \<le> length (poolInfo s')
     \<and> (\<forall>pid < length (poolInfo s).
           accRewardPerShare (poolInfo s ! pid) \<le> accRewardPerShare (poolInfo s' ! pid))"

subsection \<open>Concrete runs\<close>

text \<open>
  The runs below start from a fresh deployment by \<open>admin\<close> at address \<open>farm\<close>.
  \<open>alice\<close> holds 1000 units of \<open>tokenT\<close> and has approved the contract for
  them; nobody else holds anything. Block \<open>n\<close> carries the timestamp \<open>12 * n\<close>.
\<close>

definition admin :: address where "admin = 0xAD"
definition farm :: address where "farm = 0xFA"
definition alice :: address where "alice = 0xA1"
definition tokenT :: address where "tokenT = 0x70"
definition tokenR :: address where "tokenR = 0x71"

definition ledger0 :: tokens where
  "ledger0 =
     \<lparr>balanceOf = (\<lambda>token holder. if token = tokenT \<and> holder = alice then 1000 else 0),
      allowance = (\<lambda>token holder spender.
         if token = tokenT \<and> holder = alice \<and> spender = farm then 1000 else 0)\<rparr>"

definition at :: "address \<Rightarrow> nat \<Rightarrow> env" where
  "at sender height =
     \<lparr>msg_sender = sender, block_number = height, block_timestamp = 12 * height\<rparr>"

text \<open>Two pools with weights 50 and 60; alice stakes 1000 in the first at block 2.\<close>

definition accruing :: state where
  "accruing = run (constructor admin farm ledger0)
     [Tx (at admin 1) (Call_addPool tokenT tokenR 50 0),
      Tx (at admin 1) (Call_addPool tokenR tokenT 60 0),
      Tx (at alice 2) (Call_deposit 0 1000)]"

text \<open>Then alice withdraws 400 at block 12 and the owner changes the emission at
  block 13.\<close>

definition accruedLater :: state where
  "accruedLater = run accruing
     [Tx (at alice 12) (Call_withdraw 0 400), Tx (at admin 13) (Call_setRewardPerBlock 5)]"

text \<open>The owner sets the emission to \<open>2 ^ 255\<close> per block, adds one pool of weight 2,
  and alice stakes one unit.\<close>

definition flooded :: state where
  "flooded = run (constructor admin farm ledger0)
     [Tx (at admin 1)
        (Call_setRewardPerBlock
           57896044618658097711785492504343953926634992332820282019728792003956564819968),
      Tx (at admin 1) (Call_addPool tokenT tokenR 2 0),
      Tx (at alice 2) (Call_deposit 0 1)]"

text \<open>One pool of weight 0, so that \<open>totalAllocPoint\<close> stays 0; alice stakes 100.\<close>

definition zeroWeight :: state where
  "zeroWeight = run (constructor admin farm ledger0)
     [Tx (at admin 1) (Call_addPool tokenT tokenR 0 0),
      Tx (at alice 2) (Call_deposit 0 100)]"

text \<open>One pool with a lock of 3600 seconds and the emergency exit enabled; alice stakes
  100 at block 2.\<close>

definition exitable :: state where
  "exitable = run (constructor admin farm ledger0)
     [Tx (at admin 1) (Call_addPool tokenT tokenR 1 3600),
      Tx (at admin 1) (Call_toggleEmergencyWithdraw 0 True),
      Tx (at alice 2) (Call_deposit 0 100)]"

text \<open>One pool that stakes and rewards the same token, emergency exit enabled; alice
  stakes 100 at block 2 and one more unit at block 3. The second deposit settles her
  pending reward of \<open>1e18\<close> out of the 100 units in custody.\<close>

definition drained :: state where
  "drained = run (constructor admin farm ledger0)
     [Tx (at admin 1) (Call_addPool tokenT tokenT 1 0),
      Tx (at admin 1) (Call_toggleEmergencyWithdraw 0 True),
      Tx (at alice 2) (Call_deposit 0 100),
      Tx (at alice 3) (Call_deposit 0 1)]"

text \<open>One pool, emergency exit enabled; alice stakes 100 at block 2 and the owner pauses
  the contract at block 3.\<close>

definition halted :: state where
  "halted = run (constructor admin farm ledger0)
     [Tx (at admin 1) (Call_addPool tokenT tokenR 1 0),
      Tx (at admin 1) (Call_toggleEmergencyWithdraw 0 True),
      Tx (at alice 2) (Call_deposit 0 100),
      Tx (at admin 3) Call_pause]"

text \<open>The two pools of \<open>accruing\<close> before anybody has staked.\<close>

definition twoPools :: state where
  "twoPools = run (constructor admin farm ledger0)
     [Tx (at admin 1) (Call_addPool tokenT tokenR 50 0),
      Tx (at admin 1) (Call_addPool tokenR tokenT 60 0)]"


text \<open>\<open>exitable\<close> after alice adds 50 at block 400, long after her first lock expired.\<close>

definition toppedUp :: state where
  "toppedUp = run exitable [Tx (at alice 400) (Call_deposit 0 50)]"

text \<open>\<open>accruing\<close> after the owner, an authorised rebalancer since deployment, asks at
  block 12 for alice's position in pool 0 to be rebalanced to 500.\<close>

definition rebalanced :: state where
  "rebalanced = run accruing [Tx (at admin 12) (Call_rebalancePosition 0 alice 500)]"

text \<open>One pool without lock; after it is added, somebody sends the contract \<open>1e24\<close>
  reward tokens; alice stakes 100 at block 2. Then she adds 50 at block 3, and in the same
  block takes 50 out again.\<close>

definition ledgerFunded :: tokens where
  "ledgerFunded =
     ledger0\<lparr>balanceOf := (\<lambda>token holder.
        if token = tokenR \<and> holder = farm then 1000000000000000000000000
        else balanceOf ledger0 token holder)\<rparr>"

definition funded :: state where
  "funded = run (constructor admin farm ledger0)
     [Tx (at admin 1) (Call_addPool tokenT tokenR 1 0),
      Tokens ledgerFunded,
      Tx (at alice 2) (Call_deposit 0 100)]"

definition fundedTopUp :: state where
  "fundedTopUp = run funded [Tx (at alice 3) (Call_deposit 0 50)]"

definition fundedBack :: state where
  "fundedBack = run funded
     [Tx (at alice 3) (Call_deposit 0 50), Tx (at alice 3) (Call_withdraw 0 50)]"

section \<open>Properties\<close>

subsection \<open>Checked arithmetic and sequencing\<close>

lemma bindR_simps [simp]: "bindR (Inl err) f = Inl err" "bindR (Inr x) f = f x"
  by (simp_all add: bindR_def)

lemma bindR_Inr_iff: "bindR m f = Inr y \<longleftrightarrow> (\<exists>x. m = Inr x \<and> f x = Inr y)"
  by (cases m) simp_all

lemma add256_Inr_iff: "add256 a b = Inr c \<longleftrightarrow> a + b \<le> MAX_UINT256 \<and> c = a + b"
  by (auto simp: add256_def)

lemma sub256_Inr_iff: "sub256 a b = Inr c \<longleftrightarrow> b \<le> a \<and> c = a - b"
  by (auto simp: sub256_def)

lemma mul256_Inr_iff: "mul256 a b = Inr c \<longleftrightarrow> a * b \<le> MAX_UINT256 \<and> c = a * b"
  by (auto simp: mul256_def)

lemma div256_Inr_iff: "div256 a b = Inr c \<longleftrightarrow> b \<noteq> 0 \<and> c = a div b"
  by (auto simp: div256_def)

lemmas checked_Inr_iff =
  bindR_Inr_iff add256_Inr_iff sub256_Inr_iff mul256_Inr_iff div256_Inr_iff

text \<open>Everything needed to evaluate a call on a concrete state.\<close>

lemmas model_defs =
  constructor_def at_def admin_def farm_def alice_def tokenT_def tokenR_def ledger0_def
  addPool_def deposit_def withdraw_def emergencyWithdraw_def rebalancePosition_def
  updatePool_def massUpdatePools_def setRewardPerBlock_def setEmergencyWithdrawFee_def
  toggleEmergencyWithdraw_def setAuthorizedRebalancer_def pause_def unpause_def
  transferOwnership_def renounceOwnership_def onlyOwner_def claimPending_def safeRewardTransfer_def safeTransfer_def
  safeTransferFrom_def moveTokens_def setPool_def setPosition_def emit_def
  add256_def sub256_def mul256_def div256_def MAX_UINT256_def PRECISION_def MAX_FEE_def
  zeroPosition_def Let_def

subsection \<open>Accrual\<close>

lemma updatePool_early:
  "pid < length (poolInfo s) \<Longrightarrow> block_number e \<le> lastRewardBlock (poolInfo s ! pid) \<Longrightarrow>
   updatePool e pid s = Inr s"
  by (simp add: updatePool_def)

lemma updatePool_empty:
  "pid < length (poolInfo s) \<Longrightarrow> lastRewardBlock (poolInfo s ! pid) < block_number e \<Longrightarrow>
   totalStaked (poolInfo s ! pid) = 0 \<Longrightarrow>
   updatePool e pid s =
     Inr (setPool pid ((poolInfo s ! pid)\<lparr>lastRewardBlock := block_number e\<rparr>) s)"
  by (simp add: updatePool_def)

lemma updatePool_accrue:
  assumes "pid < length (poolInfo s)"
    and "lastRewardBlock (poolInfo s ! pid) < block_number e"
    and "totalStaked (poolInfo s ! pid) \<noteq> 0"
    and "totalAllocPoint s \<noteq> 0"
    and "elapsed = block_number e - lastRewardBlock (poolInfo s ! pid)"
    and "poolReward =
           elapsed * rewardPerBlock s * allocPoint (poolInfo s ! pid) div totalAllocPoint s"
    and "perShare = poolReward * PRECISION div totalStaked (poolInfo s ! pid)"
  shows "updatePool e pid s =
     (if elapsed * rewardPerBlock s \<le> MAX_UINT256
         \<and> elapsed * rewardPerBlock s * allocPoint (poolInfo s ! pid) \<le> MAX_UINT256
         \<and> poolReward * PRECISION \<le> MAX_UINT256
         \<and> accRewardPerShare (poolInfo s ! pid) + perShare \<le> MAX_UINT256
      then Inr (setPool pid ((poolInfo s ! pid)
                  \<lparr>accRewardPerShare := accRewardPerShare (poolInfo s ! pid) + perShare,
                   lastRewardBlock := block_number e\<rparr>) s)
      else Inl (Panic 0x11))"
  using assms
  by (simp add: updatePool_def Let_def add256_def sub256_def mul256_def div256_def)

text \<open>What a successful accrual can change: the accumulator and the accrual height of
  that one pool, and the accumulator only upwards.\<close>

lemma updatePool_Inr:
  assumes "updatePool e pid s = Inr s'"
  shows "pid < length (poolInfo s) \<and>
    (\<exists>acc lb. accRewardPerShare (poolInfo s ! pid) \<le> acc \<and> block_number e \<le> lb \<and>
       s' = setPool pid
              ((poolInfo s ! pid)\<lparr>accRewardPerShare := acc, lastRewardBlock := lb\<rparr>) s)"
proof -
  have len: "pid < length (poolInfo s)"
    using assms by (auto simp: updatePool_def split: if_splits)
  let ?pool = "poolInfo s ! pid"
  consider (early) "block_number e \<le> lastRewardBlock ?pool"
    | (empty) "lastRewardBlock ?pool < block_number e" "totalStaked ?pool = 0"
    | (accrue) "lastRewardBlock ?pool < block_number e" "totalStaked ?pool \<noteq> 0"
    by linarith
  then have "\<exists>acc lb. accRewardPerShare ?pool \<le> acc \<and> block_number e \<le> lb \<and>
       s' = setPool pid (?pool\<lparr>accRewardPerShare := acc, lastRewardBlock := lb\<rparr>) s"
  proof cases
    case early
    then have "s' = s" using assms len by (simp add: updatePool_early)
    then have "s' = setPool pid (?pool\<lparr>accRewardPerShare := accRewardPerShare ?pool,
                 lastRewardBlock := lastRewardBlock ?pool\<rparr>) s"
      by (simp add: setPool_def)
    with early show ?thesis by blast
  next
    case empty
    then have "s' = setPool pid (?pool\<lparr>lastRewardBlock := block_number e\<rparr>) s"
      using assms len by (simp add: updatePool_empty)
    then have "s' = setPool pid (?pool\<lparr>accRewardPerShare := accRewardPerShare ?pool,
                 lastRewardBlock := block_number e\<rparr>) s"
      by simp
    then show ?thesis by blast
  next
    case accrue
    have nz: "totalAllocPoint s \<noteq> 0"
      using assms len accrue by (auto simp: updatePool_def Let_def checked_Inr_iff)
    define perShare where "perShare =
      (block_number e - lastRewardBlock ?pool) * rewardPerBlock s * allocPoint ?pool
         div totalAllocPoint s * PRECISION div totalStaked ?pool"
    have "s' = setPool pid (?pool\<lparr>accRewardPerShare := accRewardPerShare ?pool + perShare,
                 lastRewardBlock := block_number e\<rparr>) s"
      using assms updatePool_accrue [OF len accrue nz refl refl refl]
      by (simp add: perShare_def split: if_splits)
    moreover have "accRewardPerShare ?pool \<le> accRewardPerShare ?pool + perShare"
      by simp
    ultimately show ?thesis by blast
  qed
  with len show ?thesis by simp
qed

lemma updatePool_twice:
  assumes "updatePool e pid s = Inr s'"
  shows "updatePool e pid s' = Inr s'"
proof -
  from updatePool_Inr [OF assms] obtain acc lb where
    len: "pid < length (poolInfo s)" and lb: "block_number e \<le> lb" and
    s': "s' = setPool pid
           ((poolInfo s ! pid)\<lparr>accRewardPerShare := acc, lastRewardBlock := lb\<rparr>) s"
    by blast
  show ?thesis
    by (rule updatePool_early) (simp_all add: s' setPool_def len lb)
qed

lemma accruing_fields:
  "poolInfo accruing =
     [\<lparr>stakingToken = tokenT, rewardToken = tokenR, allocPoint = 50, lastRewardBlock = 2,
        accRewardPerShare = 0, totalStaked = 1000, minLockPeriod = 0,
        isEmergencyWithdrawEnabled = False\<rparr>,
      \<lparr>stakingToken = tokenR, rewardToken = tokenT, allocPoint = 60, lastRewardBlock = 1,
        accRewardPerShare = 0, totalStaked = 0, minLockPeriod = 0,
        isEmergencyWithdrawEnabled = False\<rparr>]"
  "rewardPerBlock accruing = 1000000000000000000"
  "totalAllocPoint accruing = 110"
  by (simp_all add: accruing_def model_defs)

lemma flooded_fields:
  "poolInfo flooded =
     [\<lparr>stakingToken = tokenT, rewardToken = tokenR, allocPoint = 2, lastRewardBlock = 2,
        accRewardPerShare = 0, totalStaked = 1, minLockPeriod = 0,
        isEmergencyWithdrawEnabled = False\<rparr>]"
  "rewardPerBlock flooded =
     57896044618658097711785492504343953926634992332820282019728792003956564819968"
  "totalAllocPoint flooded = 2"
  by (simp_all add: flooded_def model_defs)

text \<open>
  C1, as stated, fails: in the reachable state \<open>flooded\<close> the pool is staked and the
  height has advanced, yet \<open>updatePool\<close> does not add to the accumulator or move the
  accrual height. The product \<open>1 * 2 ^ 255 * 2\<close> exceeds \<open>uint256\<close>, and the checked
  multiplication of Solidity 0.8 reverts the call with panic \<open>0x11\<close>.
\<close>

theorem updatePool_overflow_counterexample:
  "lastRewardBlock (poolInfo flooded ! 0) < block_number (at alice 3)
   \<and> totalStaked (poolInfo flooded ! 0) \<noteq> 0
   \<and> updatePool (at alice 3) 0 flooded = Inl (Panic 0x11)"
  by (simp add: flooded_fields updatePool_def at_def mul256_def sub256_def MAX_UINT256_def)

text \<open>
  C1, amended. For every pool \<open>pid\<close> of the registry and every current height:
  if the height is not above \<open>lastRewardBlock\<close>, \<open>updatePool\<close> returns without changing
  the state; otherwise, if \<open>totalStaked = 0\<close>, it sets \<open>lastRewardBlock\<close> to the
  height and changes nothing else; otherwise, provided \<open>totalAllocPoint\<close> is not zero and
  none of \<open>elapsed * rewardPerBlock\<close>, \<open>elapsed * rewardPerBlock * allocPoint\<close>,
  \<open>poolReward * 1e12\<close> and \<open>accRewardPerShare + poolReward * 1e12 / totalStaked\<close>
  exceeds \<open>2 ^ 256 - 1\<close>, it adds \<open>poolReward * 1e12 / totalStaked\<close> (truncating) to
  the accumulator, where \<open>poolReward = elapsed * rewardPerBlock * allocPoint /
  totalAllocPoint\<close> (truncating), and sets \<open>lastRewardBlock\<close> to the height; if one of
  the four does exceed it, the call reverts with panic \<open>0x11\<close>. A second call at the same
  height returns the state of the first unchanged.
\<close>

theorem updatePool_accrual:
  "pid < length (poolInfo s) \<Longrightarrow>
   (let pool = poolInfo s ! pid;
        elapsed = block_number e - lastRewardBlock pool;
        poolReward = elapsed * rewardPerBlock s * allocPoint pool div totalAllocPoint s;
        perShare = poolReward * PRECISION div totalStaked pool;
        fits = (elapsed * rewardPerBlock s \<le> MAX_UINT256
                \<and> elapsed * rewardPerBlock s * allocPoint pool \<le> MAX_UINT256
                \<and> poolReward * PRECISION \<le> MAX_UINT256
                \<and> accRewardPerShare pool + perShare \<le> MAX_UINT256)
    in (block_number e \<le> lastRewardBlock pool \<longrightarrow> updatePool e pid s = Inr s)
     \<and> (lastRewardBlock pool < block_number e \<and> totalStaked pool = 0 \<longrightarrow>
          updatePool e pid s = Inr (setPool pid (pool\<lparr>lastRewardBlock := block_number e\<rparr>) s))
     \<and> (lastRewardBlock pool < block_number e \<and> totalStaked pool \<noteq> 0
          \<and> totalAllocPoint s \<noteq> 0 \<and> fits \<longrightarrow>
          updatePool e pid s =
            Inr (setPool pid (pool\<lparr>accRewardPerShare := accRewardPerShare pool + perShare,
                                   lastRewardBlock := block_number e\<rparr>) s))
     \<and> (lastRewardBlock pool < block_number e \<and> totalStaked pool \<noteq> 0
          \<and> totalAllocPoint s \<noteq> 0 \<and> \<not> fits \<longrightarrow>
          updatePool e pid s = Inl (Panic 0x11))
     \<and> (\<forall>s'. updatePool e pid s = Inr s' \<longrightarrow> updatePool e pid s' = Inr s'))"
  unfolding Let_def
  apply (intro conjI impI allI)
      apply (simp add: updatePool_early)
     apply (simp add: updatePool_empty)
    apply (subst updatePool_accrue [OF _ _ _ _ refl refl refl]; simp)
   apply (subst updatePool_accrue [OF _ _ _ _ refl refl refl]; simp)
  apply (erule updatePool_twice)
  done

text \<open>
  The four cases at concrete inputs. In \<open>accruing\<close>, pool 0 has weight 50 of 110 and
  1000 staked since block 2: at block 2 nothing changes; at block 12 the pool earns
  \<open>10 * 1e18 * 50 div 110 = 4545454545454545454\<close> and the accumulator grows by that times
  \<open>1e12 div 1000\<close>, and a second call at block 12 changes nothing; pool 1 is empty and
  only its height moves. In \<open>flooded\<close> the product overflows.
\<close>

theorem updatePool_accrual_witness:
  "0 < length (poolInfo accruing) \<and> 1 < length (poolInfo accruing)
   \<and> 0 < length (poolInfo flooded)
   \<and> updatePool (at alice 2) 0 accruing = Inr accruing
   \<and> updatePool (at alice 12) 1 accruing =
       Inr (setPool 1 ((poolInfo accruing ! 1)\<lparr>lastRewardBlock := 12\<rparr>) accruing)
   \<and> updatePool (at alice 12) 0 accruing =
       Inr (setPool 0 ((poolInfo accruing ! 0)
              \<lparr>accRewardPerShare := 4545454545454545454000000000,
               lastRewardBlock := 12\<rparr>) accruing)
   \<and> updatePool (at alice 12) 0
        (setPool 0 ((poolInfo accruing ! 0)
              \<lparr>accRewardPerShare := 4545454545454545454000000000,
               lastRewardBlock := 12\<rparr>) accruing) =
       Inr (setPool 0 ((poolInfo accruing ! 0)
              \<lparr>accRewardPerShare := 4545454545454545454000000000,
               lastRewardBlock := 12\<rparr>) accruing)
   \<and> updatePool (at alice 3) 0 flooded = Inl (Panic 0x11)"
  using updatePool_accrual [of 0 accruing "at alice 2"]
    updatePool_accrual [of 1 accruing "at alice 12"]
    updatePool_accrual [of 0 accruing "at alice 12"]
    updatePool_accrual [of 0 flooded "at alice 3"]
  by (simp add: accruing_fields flooded_fields at_def Let_def MAX_UINT256_def PRECISION_def)

subsection \<open>What each operation changes\<close>

lemma safeTransfer_Inr:
  "safeTransfer token dst v s = Inr s' \<longleftrightarrow>
     v \<le> balanceOf (bank s) token (this s) \<and> s' = s\<lparr>bank := moveTokens token (this s) dst v (bank s)\<rparr>"
  by (auto simp: safeTransfer_def)

lemma safeTransferFrom_Inr:
  "safeTransferFrom token src dst v s = Inr s' \<Longrightarrow>
     v \<le> balanceOf (bank s) token src \<and> (\<exists>b. s' = s\<lparr>bank := b\<rparr>)"
  by (auto simp: safeTransferFrom_def Let_def split: if_splits)

lemma safeRewardTransfer_eq:
  "safeRewardTransfer token dst v s =
     Inr (s\<lparr>bank := moveTokens token (this s) dst
                      (min v (balanceOf (bank s) token (this s))) (bank s)\<rparr>)"
  by (simp add: safeRewardTransfer_def safeTransfer_def Let_def min_def)

lemma claimPending_Inr:
  "claimPending e pid s = Inr s' \<Longrightarrow> \<exists>b evs. s' = s\<lparr>bank := b, events := evs\<rparr>"
  apply (clarsimp simp: claimPending_def Let_def checked_Inr_iff safeRewardTransfer_eq emit_def split: if_splits)
   apply (rule exI, rule exI, rule refl)
  apply (rule exI [of _ "bank s"], rule exI [of _ "events s"], simp)
  done


lemma settle_Inr:
  "(if 0 < amount (userPositions s pid (msg_sender e)) then claimPending e pid s else Inr s) = Inr s'
   \<Longrightarrow> \<exists>b evs. s' = s\<lparr>bank := b, events := evs\<rparr>"
  apply (cases "0 < amount (userPositions s pid (msg_sender e))")
   apply (simp add: claimPending_Inr)
  apply simp
  apply (rule exI [of _ "bank s"], rule exI [of _ "events s"], simp)
  done

lemma deposit_Inr:
  assumes "deposit e pid v s = Inr s'"
  shows "\<not> paused s \<and> pid < length (poolInfo s) \<and> 0 < v \<and>
    (\<exists>acc lb b evs.
       accRewardPerShare (poolInfo s ! pid) \<le> acc \<and>
       s' = s\<lparr>poolInfo := (poolInfo s)[pid := (poolInfo s ! pid)
                   \<lparr>accRewardPerShare := acc, lastRewardBlock := lb,
                    totalStaked := totalStaked (poolInfo s ! pid) + v\<rparr>],
              userPositions := (userPositions s)(pid := (userPositions s pid)
                 (msg_sender e := (userPositions s pid (msg_sender e))
                    \<lparr>amount := amount (userPositions s pid (msg_sender e)) + v,
                     posLastRewardBlock := block_number e,
                     rewardDebt := (amount (userPositions s pid (msg_sender e)) + v) * acc
                                     div PRECISION,
                     lockEndTime := block_timestamp e + minLockPeriod (poolInfo s ! pid),
                     isActive := True\<rparr>)),
              bank := b, events := evs\<rparr>)"
proof -
  from assms have pre: "\<not> paused s" "pid < length (poolInfo s)" "0 < v"
    by (auto simp: deposit_def split: if_splits)
  from assms pre obtain s1 s2 s3 where
    s1: "updatePool e pid s = Inr s1" and
    s2: "(if 0 < amount (userPositions s1 pid (msg_sender e))
          then claimPending e pid s1 else Inr s1) = Inr s2" and
    s3: "safeTransferFrom (stakingToken (poolInfo s2 ! pid)) (msg_sender e) (this s2) v s2 = Inr s3"
    and s': "s' = emit (Deposit (msg_sender e) pid v)
              (setPool pid ((poolInfo s3 ! pid)\<lparr>totalStaked := totalStaked (poolInfo s3 ! pid) + v\<rparr>)
                (setPosition pid (msg_sender e)
                   ((userPositions s3 pid (msg_sender e))
                      \<lparr>amount := amount (userPositions s3 pid (msg_sender e)) + v,
                       posLastRewardBlock := block_number e,
                       rewardDebt := (amount (userPositions s3 pid (msg_sender e)) + v)
                                       * accRewardPerShare (poolInfo s3 ! pid) div PRECISION,
                       lockEndTime := block_timestamp e + minLockPeriod (poolInfo s3 ! pid),
                       isActive := True\<rparr>) s3))"
    by (auto simp: deposit_def Let_def checked_Inr_iff)
  from updatePool_Inr [OF s1] obtain acc lb where
    acc: "accRewardPerShare (poolInfo s ! pid) \<le> acc" and
    s1_eq: "s1 = setPool pid ((poolInfo s ! pid)\<lparr>accRewardPerShare := acc, lastRewardBlock := lb\<rparr>) s"
    by blast
  from settle_Inr [OF s2] obtain b2 evs2 where s2_eq: "s2 = s1\<lparr>bank := b2, events := evs2\<rparr>"
    by blast
  from safeTransferFrom_Inr [OF s3] obtain b3 where s3_eq: "s3 = s2\<lparr>bank := b3\<rparr>"
    by blast
  have "s' = s\<lparr>poolInfo := (poolInfo s)[pid := (poolInfo s ! pid)
                   \<lparr>accRewardPerShare := acc, lastRewardBlock := lb,
                    totalStaked := totalStaked (poolInfo s ! pid) + v\<rparr>],
              userPositions := (userPositions s)(pid := (userPositions s pid)
                 (msg_sender e := (userPositions s pid (msg_sender e))
                    \<lparr>amount := amount (userPositions s pid (msg_sender e)) + v,
                     posLastRewardBlock := block_number e,
                     rewardDebt := (amount (userPositions s pid (msg_sender e)) + v) * acc
                                     div PRECISION,
                     lockEndTime := block_timestamp e + minLockPeriod (poolInfo s ! pid),
                     isActive := True\<rparr>)),
              bank := b3, events := evs2 @ [Deposit (msg_sender e) pid v]\<rparr>"
    using pre by (simp add: s' s3_eq s2_eq s1_eq setPool_def setPosition_def emit_def)
  with pre acc show ?thesis by blast
qed


lemma withdraw_Inr:
  assumes "withdraw e pid v s = Inr s'"
  shows "pid < length (poolInfo s) \<and> v \<le> amount (userPositions s pid (msg_sender e)) \<and>
    lockEndTime (userPositions s pid (msg_sender e)) \<le> block_timestamp e \<and>
    v \<le> totalStaked (poolInfo s ! pid) \<and>
    (\<exists>acc lb b evs.
       accRewardPerShare (poolInfo s ! pid) \<le> acc \<and>
       s' = s\<lparr>poolInfo := (poolInfo s)[pid := (poolInfo s ! pid)
                   \<lparr>accRewardPerShare := acc, lastRewardBlock := lb,
                    totalStaked := totalStaked (poolInfo s ! pid) - v\<rparr>],
              userPositions := (userPositions s)(pid := (userPositions s pid)
                 (msg_sender e := (userPositions s pid (msg_sender e))
                    \<lparr>amount := amount (userPositions s pid (msg_sender e)) - v,
                     rewardDebt := (amount (userPositions s pid (msg_sender e)) - v) * acc
                                     div PRECISION,
                     isActive := (if amount (userPositions s pid (msg_sender e)) - v = 0
                                  then False
                                  else isActive (userPositions s pid (msg_sender e)))\<rparr>)),
              bank := b, events := evs\<rparr>)"
proof -
  let ?u = "msg_sender e"
  from assms have pre: "pid < length (poolInfo s)" "v \<le> amount (userPositions s pid ?u)"
    "lockEndTime (userPositions s pid ?u) \<le> block_timestamp e"
    by (auto simp: withdraw_def split: if_splits)
  from assms pre obtain s1 s2 s3 where
    s1: "updatePool e pid s = Inr s1" and
    s2: "claimPending e pid s1 = Inr s2" and
    staked: "v \<le> totalStaked (poolInfo s2 ! pid)" and
    s3: "safeTransfer (stakingToken (poolInfo s2 ! pid)) ?u v
           (setPool pid ((poolInfo s2 ! pid)\<lparr>totalStaked := totalStaked (poolInfo s2 ! pid) - v\<rparr>)
             (setPosition pid ?u
                ((userPositions s2 pid ?u)
                   \<lparr>amount := amount (userPositions s2 pid ?u) - v,
                    rewardDebt := (amount (userPositions s2 pid ?u) - v)
                                    * accRewardPerShare (poolInfo s2 ! pid) div PRECISION,
                    isActive := (if amount (userPositions s2 pid ?u) - v = 0 then False
                                 else isActive (userPositions s2 pid ?u))\<rparr>) s2)) = Inr s3"
    and s': "s' = emit (Withdraw ?u pid v) s3"
    by (auto simp: withdraw_def Let_def checked_Inr_iff)
  from updatePool_Inr [OF s1] obtain acc lb where
    acc: "accRewardPerShare (poolInfo s ! pid) \<le> acc" and
    s1_eq: "s1 = setPool pid ((poolInfo s ! pid)\<lparr>accRewardPerShare := acc, lastRewardBlock := lb\<rparr>) s"
    by blast
  from claimPending_Inr [OF s2] obtain b2 evs2 where s2_eq: "s2 = s1\<lparr>bank := b2, events := evs2\<rparr>"
    by blast
  from s3 obtain b3 where s3_eq: "s3 =
     (setPool pid ((poolInfo s2 ! pid)\<lparr>totalStaked := totalStaked (poolInfo s2 ! pid) - v\<rparr>)
             (setPosition pid ?u
                ((userPositions s2 pid ?u)
                   \<lparr>amount := amount (userPositions s2 pid ?u) - v,
                    rewardDebt := (amount (userPositions s2 pid ?u) - v)
                                    * accRewardPerShare (poolInfo s2 ! pid) div PRECISION,
                    isActive := (if amount (userPositions s2 pid ?u) - v = 0 then False
                                 else isActive (userPositions s2 pid ?u))\<rparr>) s2))\<lparr>bank := b3\<rparr>"
    unfolding safeTransfer_Inr by blast
  have st: "v \<le> totalStaked (poolInfo s ! pid)"
    using staked pre by (simp add: s2_eq s1_eq setPool_def)
  have "s' = s\<lparr>poolInfo := (poolInfo s)[pid := (poolInfo s ! pid)
                   \<lparr>accRewardPerShare := acc, lastRewardBlock := lb,
                    totalStaked := totalStaked (poolInfo s ! pid) - v\<rparr>],
              userPositions := (userPositions s)(pid := (userPositions s pid)
                 (?u := (userPositions s pid ?u)
                    \<lparr>amount := amount (userPositions s pid ?u) - v,
                     rewardDebt := (amount (userPositions s pid ?u) - v) * acc div PRECISION,
                     isActive := (if amount (userPositions s pid ?u) - v = 0 then False
                                  else isActive (userPositions s pid ?u))\<rparr>)),
              bank := b3, events := evs2 @ [Withdraw ?u pid v]\<rparr>"
    using pre by (simp add: s' s3_eq s2_eq s1_eq setPool_def setPosition_def emit_def)
  with pre acc st show ?thesis by blast
qed

lemma emergencyWithdraw_eq:
  assumes "pid < length (poolInfo s)"
    and "0 < amount (userPositions s pid (msg_sender e))"
    and "isEmergencyWithdrawEnabled (poolInfo s ! pid)"
    and "staked = amount (userPositions s pid (msg_sender e))"
    and "fee = staked * emergencyWithdrawFee s div 10000"
  shows "emergencyWithdraw e pid s =
    (if \<not> staked * emergencyWithdrawFee s \<le> MAX_UINT256 then Inl (Panic 0x11)
     else if \<not> fee \<le> staked then Inl (Panic 0x11)
     else if \<not> staked \<le> totalStaked (poolInfo s ! pid) then Inl (Panic 0x11)
     else if \<not> staked - fee \<le> balanceOf (bank s) (stakingToken (poolInfo s ! pid)) (this s)
     then Inl (Revert ''ERC20: transfer amount exceeds balance'')
     else Inr (s\<lparr>poolInfo := (poolInfo s)[pid := (poolInfo s ! pid)
                    \<lparr>totalStaked := totalStaked (poolInfo s ! pid) - staked\<rparr>],
               userPositions := (userPositions s)(pid := (userPositions s pid)
                 (msg_sender e := (userPositions s pid (msg_sender e))
                    \<lparr>amount := 0, rewardDebt := 0, isActive := False\<rparr>)),
               bank := moveTokens (stakingToken (poolInfo s ! pid)) (this s) (msg_sender e)
                         (staked - fee) (bank s),
               events := events s @ [EmergencyWithdraw (msg_sender e) pid (staked - fee)]\<rparr>))"
  using assms
  by (simp add: emergencyWithdraw_def Let_def add256_def sub256_def mul256_def div256_def
      safeTransfer_def setPool_def setPosition_def emit_def)


text \<open>Accrual, one pool or all of them, is an accrual-only change.\<close>

lemma accrualOnly_refl: "accrualOnly s s"
  unfolding accrualOnly_def
  apply (rule exI [of _ "poolInfo s"])
  apply simp
  apply (intro allI impI)
  subgoal for i
    apply (rule exI [of _ "accRewardPerShare (poolInfo s ! i)"])
    apply simp
    apply (rule exI [of _ "lastRewardBlock (poolInfo s ! i)"])
    apply simp
    done
  done

lemma accrualOnly_trans:
  assumes "accrualOnly s s1" and "accrualOnly s1 s2"
  shows "accrualOnly s s2"
proof -
  from assms(1) obtain p1 where p1: "s1 = s\<lparr>poolInfo := p1\<rparr>" "length p1 = length (poolInfo s)"
    "\<forall>i < length p1. \<exists>acc lb. accRewardPerShare (poolInfo s ! i) \<le> acc
        \<and> p1 ! i = (poolInfo s ! i)\<lparr>accRewardPerShare := acc, lastRewardBlock := lb\<rparr>"
    unfolding accrualOnly_def by blast
  from assms(2) obtain p2 where p2: "s2 = s1\<lparr>poolInfo := p2\<rparr>" "length p2 = length (poolInfo s1)"
    "\<forall>i < length p2. \<exists>acc lb. accRewardPerShare (poolInfo s1 ! i) \<le> acc
        \<and> p2 ! i = (poolInfo s1 ! i)\<lparr>accRewardPerShare := acc, lastRewardBlock := lb\<rparr>"
    unfolding accrualOnly_def by blast
  have len: "length p2 = length (poolInfo s)" using p1 p2 by simp
  have "\<exists>acc lb. accRewardPerShare (poolInfo s ! i) \<le> acc
        \<and> p2 ! i = (poolInfo s ! i)\<lparr>accRewardPerShare := acc, lastRewardBlock := lb\<rparr>"
    if i: "i < length p2" for i
  proof -
    from i len p1 obtain a1 l1 where a1: "accRewardPerShare (poolInfo s ! i) \<le> a1"
      "p1 ! i = (poolInfo s ! i)\<lparr>accRewardPerShare := a1, lastRewardBlock := l1\<rparr>"
      by auto
    from i p2 obtain a2 l2 where a2: "accRewardPerShare (poolInfo s1 ! i) \<le> a2"
      "p2 ! i = (poolInfo s1 ! i)\<lparr>accRewardPerShare := a2, lastRewardBlock := l2\<rparr>"
      by auto
    have "accRewardPerShare (poolInfo s ! i) \<le> a2" using a1 a2 p1 by simp
    moreover have "p2 ! i = (poolInfo s ! i)\<lparr>accRewardPerShare := a2, lastRewardBlock := l2\<rparr>"
      using a1 a2 p1 by simp
    ultimately show ?thesis by blast
  qed
  moreover have "s2 = s\<lparr>poolInfo := p2\<rparr>" using p1 p2 by simp
  ultimately show ?thesis unfolding accrualOnly_def using len by blast
qed

lemma updatePool_accrualOnly:
  assumes "updatePool e pid s = Inr s'"
  shows "accrualOnly s s'"
proof -
  from updatePool_Inr [OF assms] obtain acc lb where
    len: "pid < length (poolInfo s)" and acc: "accRewardPerShare (poolInfo s ! pid) \<le> acc" and
    s': "s' = setPool pid
           ((poolInfo s ! pid)\<lparr>accRewardPerShare := acc, lastRewardBlock := lb\<rparr>) s"
    by blast
  let ?pools = "(poolInfo s)[pid := (poolInfo s ! pid)\<lparr>accRewardPerShare := acc, lastRewardBlock := lb\<rparr>]"
  have "\<exists>a l. accRewardPerShare (poolInfo s ! i) \<le> a
        \<and> ?pools ! i = (poolInfo s ! i)\<lparr>accRewardPerShare := a, lastRewardBlock := l\<rparr>"
    if "i < length ?pools" for i
  proof (cases "i = pid")
    case True
    with len acc show ?thesis by auto
  next
    case False
    then have "?pools ! i = (poolInfo s ! i)\<lparr>accRewardPerShare := accRewardPerShare (poolInfo s ! i),
         lastRewardBlock := lastRewardBlock (poolInfo s ! i)\<rparr>"
      by simp
    then show ?thesis by blast
  qed
  then show ?thesis
    unfolding accrualOnly_def s' setPool_def
    by (intro exI [of _ ?pools]) simp
qed

lemma updatePools_accrualOnly:
  "updatePools e pids s = Inr s' \<Longrightarrow> accrualOnly s s'"
proof (induction pids arbitrary: s)
  case Nil
  then show ?case by (simp add: accrualOnly_refl)
next
  case (Cons pid pids)
  then obtain s1 where "updatePool e pid s = Inr s1" "updatePools e pids s1 = Inr s'"
    by (auto simp: bindR_Inr_iff)
  then show ?case
    using Cons.IH updatePool_accrualOnly accrualOnly_trans by blast
qed

lemma massUpdatePools_accrualOnly:
  "massUpdatePools e s = Inr s' \<Longrightarrow> accrualOnly s s'"
  by (simp add: massUpdatePools_def updatePools_accrualOnly)

lemma accrualOnly_fields:
  assumes "accrualOnly s s'"
  shows "userPositions s' = userPositions s" "length (poolInfo s') = length (poolInfo s)"
    "bank s' = bank s" "events s' = events s" "paused s' = paused s" "owner s' = owner s"
    "totalAllocPoint s' = totalAllocPoint s" "rewardPerBlock s' = rewardPerBlock s"
    "emergencyWithdrawFee s' = emergencyWithdrawFee s"
    "authorizedRebalancers s' = authorizedRebalancers s" "this s' = this s"
  using assms unfolding accrualOnly_def by auto

lemma accrualOnly_totalStaked:
  assumes "accrualOnly s s'"
  shows "map totalStaked (poolInfo s') = map totalStaked (poolInfo s)"
proof -
  from assms obtain pools where p: "s' = s\<lparr>poolInfo := pools\<rparr>" "length pools = length (poolInfo s)"
    "\<forall>i < length pools. \<exists>acc lb. accRewardPerShare (poolInfo s ! i) \<le> acc
        \<and> pools ! i = (poolInfo s ! i)\<lparr>accRewardPerShare := acc, lastRewardBlock := lb\<rparr>"
    unfolding accrualOnly_def by blast
  show ?thesis
  proof (rule nth_equalityI)
    show "length (map totalStaked (poolInfo s')) = length (map totalStaked (poolInfo s))"
      using p by simp
  next
    fix i assume "i < length (map totalStaked (poolInfo s'))"
    then have i: "i < length pools" using p by simp
    with p obtain acc lb where
      "pools ! i = (poolInfo s ! i)\<lparr>accRewardPerShare := acc, lastRewardBlock := lb\<rparr>"
      by blast
    then show "map totalStaked (poolInfo s') ! i = map totalStaked (poolInfo s) ! i"
      using i p by simp
  qed
qed

lemma accrualOnly_accNotBelow: "accrualOnly s s' \<Longrightarrow> accNotBelow s s'"
  unfolding accrualOnly_def accNotBelow_def by fastforce

subsection \<open>The ledger invariant\<close>

lemma sum_amount_update:
  fixes f :: "address \<Rightarrow> Position"
  shows "(\<Sum>user \<in> UNIV. amount ((f(u := p)) user)) + amount (f u)
       = (\<Sum>user \<in> UNIV. amount (f user)) + amount p"
proof -
  have fin: "finite (UNIV :: address set)" by simp
  have a: "(\<Sum>user \<in> UNIV. amount ((f(u := p)) user))
         = amount p + (\<Sum>user \<in> UNIV - {u}. amount ((f(u := p)) user))"
    using sum.remove [OF fin, of u "\<lambda>user. amount ((f(u := p)) user)"] by simp
  have b: "(\<Sum>user \<in> UNIV. amount (f user))
         = amount (f u) + (\<Sum>user \<in> UNIV - {u}. amount (f user))"
    using sum.remove [OF fin, of u "\<lambda>user. amount (f user)"] by simp
  have c: "(\<Sum>user \<in> UNIV - {u}. amount ((f(u := p)) user))
         = (\<Sum>user \<in> UNIV - {u}. amount (f user))"
    by (rule sum.cong) auto
  show ?thesis using a b c by simp
qed

lemma consistent_cong:
  assumes "consistent s" and "userPositions s' = userPositions s"
    and "map totalStaked (poolInfo s') = map totalStaked (poolInfo s)"
  shows "consistent s'"
proof -
  have len: "length (poolInfo s') = length (poolInfo s)"
    using assms(3) by (metis length_map)
  have ts: "totalStaked (poolInfo s' ! pid) = totalStaked (poolInfo s ! pid)"
    if "pid < length (poolInfo s)" for pid
    using that assms(3) len by (metis nth_map)
  show ?thesis
    using assms(1) unfolding consistent_def assms(2) len
    by (simp add: ts)
qed

lemma consistent_update:
  assumes inv: "consistent s" and pid: "pid < length (poolInfo s)"
    and pos: "userPositions s' = (userPositions s)(pid := (userPositions s pid)(u := p))"
    and pools: "map totalStaked (poolInfo s') = (map totalStaked (poolInfo s))[pid := T]"
    and act: "isActive p = (0 < amount p)"
    and bal: "T + amount (userPositions s pid u) = totalStaked (poolInfo s ! pid) + amount p"
  shows "consistent s'"
proof -
  have len: "length (poolInfo s') = length (poolInfo s)"
    using pools by (metis length_map length_list_update)
  have ts: "totalStaked (poolInfo s' ! i) = (if i = pid then T else totalStaked (poolInfo s ! i))"
    if "i < length (poolInfo s)" for i
  proof -
    have "totalStaked (poolInfo s' ! i) = map totalStaked (poolInfo s') ! i"
      using that len by simp
    also have "\<dots> = (map totalStaked (poolInfo s))[pid := T] ! i"
      using pools by simp
    also have "\<dots> = (if i = pid then T else totalStaked (poolInfo s ! i))"
      using that by (simp add: nth_list_update)
    finally show ?thesis .
  qed
  have old: "totalStaked (poolInfo s ! pid) = (\<Sum>user \<in> UNIV. amount (userPositions s pid user))"
    using inv pid unfolding consistent_def by blast
  have new: "T = (\<Sum>user \<in> UNIV. amount (((userPositions s pid)(u := p)) user))"
    using sum_amount_update [of "userPositions s pid" u p] bal old by simp
  have 1: "isActive (userPositions s' i user) = (0 < amount (userPositions s' i user))" for i user
    using inv act unfolding consistent_def pos by simp
  have 2: "totalStaked (poolInfo s' ! i) = (\<Sum>user \<in> UNIV. amount (userPositions s' i user))"
    if "i < length (poolInfo s')" for i
  proof (cases "i = pid")
    case True
    then show ?thesis using ts [of i] pid new by (simp add: pos)
  next
    case False
    then show ?thesis using ts [of i] that len inv unfolding consistent_def pos by simp
  qed
  have 3: "amount (userPositions s' i user) = 0" if "\<not> i < length (poolInfo s')" for i user
  proof -
    from that len pid have "i \<noteq> pid" by auto
    then show ?thesis using that len inv unfolding consistent_def pos by simp
  qed
  show ?thesis unfolding consistent_def using 1 2 3 by blast
qed

lemma consistent_stake_le:
  assumes "consistent s" and "pid < length (poolInfo s)"
  shows "amount (userPositions s pid u) \<le> totalStaked (poolInfo s ! pid)"
proof -
  have "totalStaked (poolInfo s ! pid) = (\<Sum>user \<in> UNIV. amount (userPositions s pid user))"
    using assms unfolding consistent_def by blast
  also have "\<dots> \<ge> amount (userPositions s pid u)"
    using member_le_sum [of u UNIV "\<lambda>user. amount (userPositions s pid user)"] by simp
  finally show ?thesis .
qed

lemma consistent_activeStake:
  assumes "consistent s" and "pid < length (poolInfo s)"
  shows "totalStaked (poolInfo s ! pid) = activeStake s pid"
proof -
  have act: "{user. isActive (userPositions s pid user)} = {user. 0 < amount (userPositions s pid user)}"
    using assms(1) unfolding consistent_def by simp
  have "(\<Sum>user \<in> UNIV. amount (userPositions s pid user))
      = (\<Sum>user \<in> {user. 0 < amount (userPositions s pid user)}. amount (userPositions s pid user))"
    by (rule sum.mono_neutral_right) auto
  then show ?thesis
    using assms unfolding consistent_def activeStake_def act by simp
qed

lemma emergencyWithdraw_Inr:
  assumes "emergencyWithdraw e pid s = Inr s'"
  shows "pid < length (poolInfo s) \<and> 0 < amount (userPositions s pid (msg_sender e)) \<and>
    isEmergencyWithdrawEnabled (poolInfo s ! pid) \<and>
    amount (userPositions s pid (msg_sender e)) \<le> totalStaked (poolInfo s ! pid) \<and>
    (\<exists>b evs.
       s' = s\<lparr>poolInfo := (poolInfo s)[pid := (poolInfo s ! pid)
                   \<lparr>totalStaked := totalStaked (poolInfo s ! pid)
                                     - amount (userPositions s pid (msg_sender e))\<rparr>],
              userPositions := (userPositions s)(pid := (userPositions s pid)
                 (msg_sender e := (userPositions s pid (msg_sender e))
                    \<lparr>amount := 0, rewardDebt := 0, isActive := False\<rparr>)),
              bank := b, events := evs\<rparr>)"
proof -
  from assms have pre: "pid < length (poolInfo s)"
    "0 < amount (userPositions s pid (msg_sender e))"
    "isEmergencyWithdrawEnabled (poolInfo s ! pid)"
    by (auto simp: emergencyWithdraw_def Let_def split: if_splits)
  from assms show ?thesis
    unfolding emergencyWithdraw_eq [OF pre refl refl]
    using pre by (auto split: if_splits)
qed

lemma deposit_consistent:
  assumes "consistent s" and "deposit e pid v s = Inr s'"
  shows "consistent s'"
proof -
  from deposit_Inr [OF assms(2)] obtain acc lb b evs where
    pid: "pid < length (poolInfo s)" and v: "0 < v" and
    s': "s' = s\<lparr>poolInfo := (poolInfo s)[pid := (poolInfo s ! pid)
                   \<lparr>accRewardPerShare := acc, lastRewardBlock := lb,
                    totalStaked := totalStaked (poolInfo s ! pid) + v\<rparr>],
              userPositions := (userPositions s)(pid := (userPositions s pid)
                 (msg_sender e := (userPositions s pid (msg_sender e))
                    \<lparr>amount := amount (userPositions s pid (msg_sender e)) + v,
                     posLastRewardBlock := block_number e,
                     rewardDebt := (amount (userPositions s pid (msg_sender e)) + v) * acc
                                     div PRECISION,
                     lockEndTime := block_timestamp e + minLockPeriod (poolInfo s ! pid),
                     isActive := True\<rparr>)),
              bank := b, events := evs\<rparr>"
    by blast
  show ?thesis
    by (rule consistent_update [OF assms(1) pid, where u = "msg_sender e"
          and T = "totalStaked (poolInfo s ! pid) + v"
          and p = "(userPositions s pid (msg_sender e))
                    \<lparr>amount := amount (userPositions s pid (msg_sender e)) + v,
                     posLastRewardBlock := block_number e,
                     rewardDebt := (amount (userPositions s pid (msg_sender e)) + v) * acc
                                     div PRECISION,
                     lockEndTime := block_timestamp e + minLockPeriod (poolInfo s ! pid),
                     isActive := True\<rparr>"])
       (use v in \<open>simp_all add: s' map_update\<close>)
qed

lemma withdraw_consistent:
  assumes "consistent s" and "withdraw e pid v s = Inr s'"
  shows "consistent s'"
proof -
  from withdraw_Inr [OF assms(2)] obtain acc lb b evs where
    pid: "pid < length (poolInfo s)" and
    v: "v \<le> amount (userPositions s pid (msg_sender e))" "v \<le> totalStaked (poolInfo s ! pid)" and
    s': "s' = s\<lparr>poolInfo := (poolInfo s)[pid := (poolInfo s ! pid)
                   \<lparr>accRewardPerShare := acc, lastRewardBlock := lb,
                    totalStaked := totalStaked (poolInfo s ! pid) - v\<rparr>],
              userPositions := (userPositions s)(pid := (userPositions s pid)
                 (msg_sender e := (userPositions s pid (msg_sender e))
                    \<lparr>amount := amount (userPositions s pid (msg_sender e)) - v,
                     rewardDebt := (amount (userPositions s pid (msg_sender e)) - v) * acc
                                     div PRECISION,
                     isActive := (if amount (userPositions s pid (msg_sender e)) - v = 0
                                  then False
                                  else isActive (userPositions s pid (msg_sender e)))\<rparr>)),
              bank := b, events := evs\<rparr>"
    by blast
  have act: "isActive (userPositions s pid (msg_sender e))
               = (0 < amount (userPositions s pid (msg_sender e)))"
    using assms(1) unfolding consistent_def by blast
  show ?thesis
    by (rule consistent_update [OF assms(1) pid, where u = "msg_sender e"
          and T = "totalStaked (poolInfo s ! pid) - v"
          and p = "(userPositions s pid (msg_sender e))
                    \<lparr>amount := amount (userPositions s pid (msg_sender e)) - v,
                     rewardDebt := (amount (userPositions s pid (msg_sender e)) - v) * acc
                                     div PRECISION,
                     isActive := (if amount (userPositions s pid (msg_sender e)) - v = 0
                                  then False
                                  else isActive (userPositions s pid (msg_sender e)))\<rparr>"])
       (use v act in \<open>simp_all add: s' map_update\<close>)
qed

lemma emergencyWithdraw_consistent:
  assumes "consistent s" and "emergencyWithdraw e pid s = Inr s'"
  shows "consistent s'"
proof -
  from emergencyWithdraw_Inr [OF assms(2)] obtain b evs where
    pid: "pid < length (poolInfo s)" and
    le: "amount (userPositions s pid (msg_sender e)) \<le> totalStaked (poolInfo s ! pid)" and
    s': "s' = s\<lparr>poolInfo := (poolInfo s)[pid := (poolInfo s ! pid)
                   \<lparr>totalStaked := totalStaked (poolInfo s ! pid)
                                     - amount (userPositions s pid (msg_sender e))\<rparr>],
              userPositions := (userPositions s)(pid := (userPositions s pid)
                 (msg_sender e := (userPositions s pid (msg_sender e))
                    \<lparr>amount := 0, rewardDebt := 0, isActive := False\<rparr>)),
              bank := b, events := evs\<rparr>"
    by blast
  show ?thesis
    by (rule consistent_update [OF assms(1) pid, where u = "msg_sender e"
          and T = "totalStaked (poolInfo s ! pid) - amount (userPositions s pid (msg_sender e))"
          and p = "(userPositions s pid (msg_sender e))
                    \<lparr>amount := 0, rewardDebt := 0, isActive := False\<rparr>"])
       (use le in \<open>simp_all add: s' map_update\<close>)
qed

lemma accrualOnly_consistent: "consistent s \<Longrightarrow> accrualOnly s s' \<Longrightarrow> consistent s'"
  by (rule consistent_cong) (simp_all add: accrualOnly_fields accrualOnly_totalStaked)

lemma consistent_append:
  assumes "consistent s" and "userPositions s' = userPositions s"
    and "poolInfo s' = poolInfo s @ [pool]" and "totalStaked pool = 0"
  shows "consistent s'"
proof -
  have "totalStaked (poolInfo s' ! i) = (\<Sum>user \<in> UNIV. amount (userPositions s' i user))"
    if "i < length (poolInfo s')" for i
  proof (cases "i < length (poolInfo s)")
    case True
    then show ?thesis using assms unfolding consistent_def by (simp add: nth_append)
  next
    case False
    with that assms(3) have i: "i = length (poolInfo s)" by simp
    have "amount (userPositions s i user) = 0" for user
      using assms(1) i unfolding consistent_def by simp
    then show ?thesis using assms i by simp
  qed
  moreover have "amount (userPositions s' i user) = 0" if "\<not> i < length (poolInfo s')" for i user
    using that assms unfolding consistent_def by simp
  moreover have "isActive (userPositions s' i user) = (0 < amount (userPositions s' i user))"
    for i user
    using assms unfolding consistent_def by simp
  ultimately show ?thesis unfolding consistent_def by blast
qed

lemma addPool_Inr:
  assumes "addPool e st rt w l s = Inr s'"
  shows "\<exists>s1 total evs. accrualOnly s s1 \<and>
    s' = s1\<lparr>poolInfo := poolInfo s1 @
               [\<lparr>stakingToken = st, rewardToken = rt, allocPoint = w,
                 lastRewardBlock = block_number e, accRewardPerShare = 0, totalStaked = 0,
                 minLockPeriod = l, isEmergencyWithdrawEnabled = False\<rparr>],
             totalAllocPoint := total, events := evs\<rparr>"
proof -
  from assms obtain s1 total where s1: "massUpdatePools e s = Inr s1"
    and s': "s' = emit (PoolAdded (length (poolInfo s1)) st rt)
               (s1\<lparr>totalAllocPoint := total,
                   poolInfo := poolInfo s1 @
               [\<lparr>stakingToken = st, rewardToken = rt, allocPoint = w,
                 lastRewardBlock = block_number e, accRewardPerShare = 0, totalStaked = 0,
                 minLockPeriod = l, isEmergencyWithdrawEnabled = False\<rparr>]\<rparr>)"
    by (auto simp: addPool_def onlyOwner_def Let_def checked_Inr_iff split: if_splits)
  have "accrualOnly s s1" using s1 by (rule massUpdatePools_accrualOnly)
  moreover have "s' = s1\<lparr>poolInfo := poolInfo s1 @
               [\<lparr>stakingToken = st, rewardToken = rt, allocPoint = w,
                 lastRewardBlock = block_number e, accRewardPerShare = 0, totalStaked = 0,
                 minLockPeriod = l, isEmergencyWithdrawEnabled = False\<rparr>],
             totalAllocPoint := total,
             events := events s1 @ [PoolAdded (length (poolInfo s1)) st rt]\<rparr>"
    by (simp add: s' emit_def)
  ultimately show ?thesis by blast
qed

lemma addPool_consistent:
  assumes "consistent s" and "addPool e st rt w l s = Inr s'"
  shows "consistent s'"
proof -
  from addPool_Inr [OF assms(2)] obtain s1 total evs where
    s1: "accrualOnly s s1" and
    s': "s' = s1\<lparr>poolInfo := poolInfo s1 @
               [\<lparr>stakingToken = st, rewardToken = rt, allocPoint = w,
                 lastRewardBlock = block_number e, accRewardPerShare = 0, totalStaked = 0,
                 minLockPeriod = l, isEmergencyWithdrawEnabled = False\<rparr>],
             totalAllocPoint := total, events := evs\<rparr>"
    by blast
  have "consistent s1" using assms(1) s1 by (rule accrualOnly_consistent)
  then show ?thesis
    by (rule consistent_append [where pool =
               "\<lparr>stakingToken = st, rewardToken = rt, allocPoint = w,
                 lastRewardBlock = block_number e, accRewardPerShare = 0, totalStaked = 0,
                 minLockPeriod = l, isEmergencyWithdrawEnabled = False\<rparr>"])
       (simp_all add: s')
qed

lemma rebalancePosition_Inr:
  assumes "rebalancePosition e pid user newAmount s = Inr s'"
  shows "authorizedRebalancers s (msg_sender e) \<and> pid < length (poolInfo s) \<and>
    isActive (userPositions s pid user) \<and>
    (\<exists>s1. updatePool e pid s = Inr s1 \<and>
       s' = s1\<lparr>events := events s @ [PositionRebalanced user pid newAmount]\<rparr>)"
proof -
  from assms have pre: "authorizedRebalancers s (msg_sender e)" "pid < length (poolInfo s)"
    "isActive (userPositions s pid user)"
    by (auto simp: rebalancePosition_def split: if_splits)
  with assms obtain s1 where s1: "updatePool e pid s = Inr s1"
    and s': "s' = emit (PositionRebalanced user pid newAmount) s1"
    by (auto simp: rebalancePosition_def bindR_Inr_iff)
  have "events s1 = events s"
    using updatePool_accrualOnly [OF s1] by (simp add: accrualOnly_fields)
  then have "s' = s1\<lparr>events := events s @ [PositionRebalanced user pid newAmount]\<rparr>"
    by (simp add: s' emit_def)
  with pre s1 show ?thesis by blast
qed

lemma other_calls_consistent:
  assumes "consistent s"
  shows "rebalancePosition e pid user newAmount s = Inr s' \<Longrightarrow> consistent s'"
    and "setRewardPerBlock e v s = Inr s' \<Longrightarrow> consistent s'"
    and "setEmergencyWithdrawFee e v s = Inr s' \<Longrightarrow> consistent s'"
    and "toggleEmergencyWithdraw e pid enabled s = Inr s' \<Longrightarrow> consistent s'"
    and "setAuthorizedRebalancer e a enabled s = Inr s' \<Longrightarrow> consistent s'"
    and "pause e s = Inr s' \<Longrightarrow> consistent s'"
    and "unpause e s = Inr s' \<Longrightarrow> consistent s'"
    and "transferOwnership e a s = Inr s' \<Longrightarrow> consistent s'"
    and "renounceOwnership e s = Inr s' \<Longrightarrow> consistent s'"
proof -
  show "consistent s'" if "rebalancePosition e pid user newAmount s = Inr s'"
  proof -
    from rebalancePosition_Inr [OF that] obtain s1 where s1: "updatePool e pid s = Inr s1"
      and s': "s' = s1\<lparr>events := events s @ [PositionRebalanced user pid newAmount]\<rparr>"
      by blast
    have "consistent s1"
      using assms updatePool_accrualOnly [OF s1] by (rule accrualOnly_consistent)
    then show ?thesis by (rule consistent_cong) (simp_all add: s')
  qed
  show "consistent s'" if "setRewardPerBlock e v s = Inr s'"
  proof -
    from that obtain s1 where s1: "massUpdatePools e s = Inr s1"
      and s': "s' = s1\<lparr>rewardPerBlock := v\<rparr>"
      by (auto simp: setRewardPerBlock_def onlyOwner_def bindR_Inr_iff split: if_splits)
    have "consistent s1"
      using assms massUpdatePools_accrualOnly [OF s1] by (rule accrualOnly_consistent)
    then show ?thesis by (rule consistent_cong) (simp_all add: s')
  qed
  show "consistent s'" if "setEmergencyWithdrawFee e v s = Inr s'"
    using that
    by (auto simp: setEmergencyWithdrawFee_def onlyOwner_def split: if_splits
        intro!: consistent_cong [OF assms])
  show "consistent s'" if "toggleEmergencyWithdraw e pid enabled s = Inr s'"
    using that
    by (auto simp: toggleEmergencyWithdraw_def onlyOwner_def setPool_def map_update
        list_update_same_conv split: if_splits intro!: consistent_cong [OF assms])
  show "consistent s'" if "setAuthorizedRebalancer e a enabled s = Inr s'"
    using that
    by (auto simp: setAuthorizedRebalancer_def onlyOwner_def split: if_splits
        intro!: consistent_cong [OF assms])
  show "consistent s'" if "pause e s = Inr s'"
    using that
    by (auto simp: pause_def onlyOwner_def split: if_splits
        intro!: consistent_cong [OF assms])
  show "consistent s'" if "unpause e s = Inr s'"
    using that
    by (auto simp: unpause_def onlyOwner_def split: if_splits
        intro!: consistent_cong [OF assms])
  show "consistent s'" if "transferOwnership e a s = Inr s'"
    using that
    by (auto simp: transferOwnership_def onlyOwner_def split: if_splits
        intro!: consistent_cong [OF assms])
  show "consistent s'" if "renounceOwnership e s = Inr s'"
    using that
    by (auto simp: renounceOwnership_def onlyOwner_def split: if_splits
        intro!: consistent_cong [OF assms])
qed

lemma dispatch_consistent:
  assumes "consistent s" and "dispatch e c s = Inr s'"
  shows "consistent s'"
proof (cases c)
  case (Call_addPool st rt w l)
  then show ?thesis using assms addPool_consistent by simp
next
  case (Call_deposit pid v)
  then show ?thesis using assms deposit_consistent by simp
next
  case (Call_withdraw pid v)
  then show ?thesis using assms withdraw_consistent by simp
next
  case (Call_emergencyWithdraw pid)
  then show ?thesis using assms emergencyWithdraw_consistent by simp
next
  case Call_massUpdatePools
  then show ?thesis
    using assms by (auto intro: accrualOnly_consistent massUpdatePools_accrualOnly)
next
  case (Call_updatePool pid)
  then show ?thesis
    using assms by (auto intro: accrualOnly_consistent updatePool_accrualOnly)
next
  case (Call_rebalancePosition pid user v)
  then show ?thesis using assms other_calls_consistent(1) by simp
next
  case (Call_setRewardPerBlock v)
  then show ?thesis using assms other_calls_consistent(2) by simp
next
  case (Call_setEmergencyWithdrawFee v)
  then show ?thesis using assms other_calls_consistent(3) by simp
next
  case (Call_toggleEmergencyWithdraw pid enabled)
  then show ?thesis using assms other_calls_consistent(4) by simp
next
  case (Call_setAuthorizedRebalancer a enabled)
  then show ?thesis using assms other_calls_consistent(5) by simp
next
  case Call_pause
  then show ?thesis using assms other_calls_consistent(6) by simp
next
  case Call_unpause
  then show ?thesis using assms other_calls_consistent(7) by simp
next
  case (Call_transferOwnership a)
  then show ?thesis using assms other_calls_consistent(8) by simp
next
  case Call_renounceOwnership
  then show ?thesis using assms other_calls_consistent(9) by simp
qed

lemma step_consistent: "consistent s \<Longrightarrow> consistent (step a s)"
proof (cases a)
  case (Tx e c)
  assume "consistent s"
  then show ?thesis
    using Tx dispatch_consistent [of s e c] by (cases "dispatch e c s") simp_all
next
  case (Tokens ledger)
  assume "consistent s"
  then show ?thesis
    unfolding Tokens by (auto intro: consistent_cong)
qed

lemma run_consistent: "consistent s \<Longrightarrow> consistent (run s as)"
  by (induction as arbitrary: s) (simp_all add: step_consistent)

lemma constructor_consistent: "consistent (constructor deployer self ledger)"
  by (simp add: consistent_def constructor_def zeroPosition_def)

text \<open>
  C2. In every state reachable from deployment by any sequence of transactions (deposits,
  withdrawals, emergency withdrawals, rebalances, accruals and every owner operation,
  with reverted calls and arbitrary outside token activity in between), each pool's
  \<open>totalStaked\<close> equals the sum of \<open>amount\<close> over the positions of that pool with
  \<open>isActive == true\<close>.
\<close>

theorem totalStaked_is_activeStake:
  "pid < length (poolInfo (run (constructor deployer self ledger) as)) \<Longrightarrow>
   totalStaked (poolInfo (run (constructor deployer self ledger) as) ! pid)
     = activeStake (run (constructor deployer self ledger) as) pid"
  by (rule consistent_activeStake [OF run_consistent [OF constructor_consistent]])

text \<open>After two pools are added and alice stakes 1000 in the first, the active stake of
  pool 0 is 1000 and that of pool 1 is 0.\<close>

theorem totalStaked_is_activeStake_witness:
  "0 < length (poolInfo accruing) \<and> activeStake accruing 0 = 1000
   \<and> 1 < length (poolInfo accruing) \<and> activeStake accruing 1 = 0"
  using totalStaked_is_activeStake [of 0 admin farm ledger0
      "[Tx (at admin 1) (Call_addPool tokenT tokenR 50 0),
        Tx (at admin 1) (Call_addPool tokenR tokenT 60 0),
        Tx (at alice 2) (Call_deposit 0 1000)]", folded accruing_def]
    totalStaked_is_activeStake [of 1 admin farm ledger0
      "[Tx (at admin 1) (Call_addPool tokenT tokenR 50 0),
        Tx (at admin 1) (Call_addPool tokenR tokenT 60 0),
        Tx (at alice 2) (Call_deposit 0 1000)]", folded accruing_def]
  by (simp add: accruing_fields)

subsection \<open>The accumulator\<close>

lemma accNotBelow_refl: "accNotBelow s s"
  by (simp add: accNotBelow_def)

lemma accNotBelow_trans: "accNotBelow s s1 \<Longrightarrow> accNotBelow s1 s2 \<Longrightarrow> accNotBelow s s2"
  unfolding accNotBelow_def by (meson le_trans less_le_trans)

lemma accNotBelow_same: "poolInfo s' = poolInfo s \<Longrightarrow> accNotBelow s s'"
  by (simp add: accNotBelow_def)

lemma accNotBelow_update:
  "poolInfo s' = (poolInfo s)[pid := p] \<Longrightarrow>
   accRewardPerShare (poolInfo s ! pid) \<le> accRewardPerShare p \<Longrightarrow> accNotBelow s s'"
  by (auto simp add: accNotBelow_def)
     (metis nth_list_update_eq nth_list_update_neq order_refl)

lemma accNotBelow_append: "poolInfo s' = poolInfo s @ ps \<Longrightarrow> accNotBelow s s'"
  by (simp add: accNotBelow_def nth_append)

lemma dispatch_accNotBelow:
  assumes "dispatch e c s = Inr s'"
  shows "accNotBelow s s'"
proof (cases c)
  case (Call_addPool st rt w l)
  with assms have "addPool e st rt w l s = Inr s'" by simp
  from addPool_Inr [OF this] obtain s1 total evs where
    s1: "accrualOnly s s1" and
    s': "s' = s1\<lparr>poolInfo := poolInfo s1 @
               [\<lparr>stakingToken = st, rewardToken = rt, allocPoint = w,
                 lastRewardBlock = block_number e, accRewardPerShare = 0, totalStaked = 0,
                 minLockPeriod = l, isEmergencyWithdrawEnabled = False\<rparr>],
             totalAllocPoint := total, events := evs\<rparr>"
    by blast
  have "accNotBelow s1 s'" by (rule accNotBelow_append) (simp add: s')
  with accrualOnly_accNotBelow [OF s1] show ?thesis by (rule accNotBelow_trans)
next
  case (Call_deposit pid v)
  with assms have "deposit e pid v s = Inr s'" by simp
  from deposit_Inr [OF this] show ?thesis
    by (auto intro!: accNotBelow_update)
next
  case (Call_withdraw pid v)
  with assms have "withdraw e pid v s = Inr s'" by simp
  from withdraw_Inr [OF this] show ?thesis
    by (auto intro!: accNotBelow_update)
next
  case (Call_emergencyWithdraw pid)
  with assms have "emergencyWithdraw e pid s = Inr s'" by simp
  from emergencyWithdraw_Inr [OF this] show ?thesis
    by (auto intro!: accNotBelow_update)
next
  case (Call_rebalancePosition pid user v)
  with assms have "rebalancePosition e pid user v s = Inr s'" by simp
  from rebalancePosition_Inr [OF this] obtain s1 where s1: "updatePool e pid s = Inr s1"
    and s': "s' = s1\<lparr>events := events s @ [PositionRebalanced user pid v]\<rparr>"
    by blast
  have "accNotBelow s1 s'" by (rule accNotBelow_same) (simp add: s')
  with accrualOnly_accNotBelow [OF updatePool_accrualOnly [OF s1]] show ?thesis
    by (rule accNotBelow_trans)
next
  case Call_massUpdatePools
  with assms show ?thesis
    by (simp add: accrualOnly_accNotBelow massUpdatePools_accrualOnly)
next
  case (Call_updatePool pid)
  with assms show ?thesis
    by (simp add: accrualOnly_accNotBelow updatePool_accrualOnly)
next
  case (Call_setRewardPerBlock v)
  with assms obtain s1 where s1: "massUpdatePools e s = Inr s1"
    and s': "s' = s1\<lparr>rewardPerBlock := v\<rparr>"
    by (auto simp: setRewardPerBlock_def onlyOwner_def bindR_Inr_iff split: if_splits)
  have "accNotBelow s1 s'" by (rule accNotBelow_same) (simp add: s')
  with accrualOnly_accNotBelow [OF massUpdatePools_accrualOnly [OF s1]] show ?thesis
    by (rule accNotBelow_trans)
next
  case (Call_setEmergencyWithdrawFee v)
  with assms show ?thesis
    by (auto simp: setEmergencyWithdrawFee_def onlyOwner_def split: if_splits
        intro!: accNotBelow_same)
next
  case (Call_toggleEmergencyWithdraw pid enabled)
  with assms show ?thesis
    by (auto simp: toggleEmergencyWithdraw_def onlyOwner_def setPool_def split: if_splits
        intro!: accNotBelow_update)
next
  case (Call_setAuthorizedRebalancer a enabled)
  with assms show ?thesis
    by (auto simp: setAuthorizedRebalancer_def onlyOwner_def split: if_splits
        intro!: accNotBelow_same)
next
  case Call_pause
  with assms show ?thesis
    by (auto simp: pause_def onlyOwner_def split: if_splits intro!: accNotBelow_same)
next
  case Call_unpause
  with assms show ?thesis
    by (auto simp: unpause_def onlyOwner_def split: if_splits intro!: accNotBelow_same)
next
  case (Call_transferOwnership a)
  with assms show ?thesis
    by (auto simp: transferOwnership_def onlyOwner_def split: if_splits
        intro!: accNotBelow_same)
next
  case Call_renounceOwnership
  with assms show ?thesis
    by (auto simp: renounceOwnership_def onlyOwner_def split: if_splits
        intro!: accNotBelow_same)
qed

lemma step_accNotBelow: "accNotBelow s (step a s)"
proof (cases a)
  case (Tx e c)
  then show ?thesis
    using dispatch_accNotBelow [of e c s]
    by (cases "dispatch e c s") (simp_all add: accNotBelow_refl)
next
  case (Tokens ledger)
  then show ?thesis by (simp add: accNotBelow_same)
qed

lemma run_accNotBelow: "accNotBelow s (run s as)"
proof (induction as arbitrary: s)
  case Nil
  then show ?case by (simp add: accNotBelow_refl)
next
  case (Cons a as)
  have "accNotBelow s (step a s)" by (rule step_accNotBelow)
  moreover have "accNotBelow (step a s) (run (step a s) as)" by (rule Cons.IH)
  ultimately show ?case by (simp add: accNotBelow_trans)
qed

text \<open>
  C3. From any state, whatever sequence of transactions follows (deposits, withdrawals,
  emergency withdrawals, rebalances, \<open>addPool\<close>, \<open>setRewardPerBlock\<close>, the other owner
  operations, reverted calls included), every pool is still there afterwards and its
  \<open>accRewardPerShare\<close> is at least what it was. A single operation is the sequence of
  length one.
\<close>

theorem accRewardPerShare_never_decreases:
  "pid < length (poolInfo s) \<Longrightarrow>
   pid < length (poolInfo (run s as))
   \<and> accRewardPerShare (poolInfo s ! pid) \<le> accRewardPerShare (poolInfo (run s as) ! pid)"
  using run_accNotBelow [of s as] unfolding accNotBelow_def by auto

lemma accruedLater_fields:
  "poolInfo accruedLater =
     [\<lparr>stakingToken = tokenT, rewardToken = tokenR, allocPoint = 50, lastRewardBlock = 13,
        accRewardPerShare = 5303030303030303029000000000, totalStaked = 600,
        minLockPeriod = 0, isEmergencyWithdrawEnabled = False\<rparr>,
      \<lparr>stakingToken = tokenR, rewardToken = tokenT, allocPoint = 60, lastRewardBlock = 13,
        accRewardPerShare = 0, totalStaked = 0, minLockPeriod = 0,
        isEmergencyWithdrawEnabled = False\<rparr>]"
  by (simp add: accruedLater_def accruing_def model_defs)

text \<open>In \<open>accruing\<close> the accumulator of pool 0 is 0; in \<open>accruedLater\<close>, two
  transactions on, it is 5303030303030303029000000000.\<close>

theorem accRewardPerShare_never_decreases_witness:
  "0 < length (poolInfo accruing)
   \<and> 0 < length (poolInfo accruedLater)
   \<and> accRewardPerShare (poolInfo accruing ! 0) \<le> accRewardPerShare (poolInfo accruedLater ! 0)
   \<and> accRewardPerShare (poolInfo accruing ! 0) = 0
   \<and> accRewardPerShare (poolInfo accruedLater ! 0) = 5303030303030303029000000000"
  using accRewardPerShare_never_decreases [of 0 accruing
      "[Tx (at alice 12) (Call_withdraw 0 400), Tx (at admin 13) (Call_setRewardPerBlock 5)]",
      folded accruedLater_def]
  by (simp add: accruing_fields accruedLater_fields)

subsection \<open>The emergency exit\<close>

lemma dispatch_fee:
  assumes "dispatch e c s = Inr s'" and "emergencyWithdrawFee s \<le> MAX_FEE"
  shows "emergencyWithdrawFee s' \<le> MAX_FEE"
proof (cases c)
  case (Call_addPool st rt w l)
  with assms(1) have "addPool e st rt w l s = Inr s'" by simp
  from addPool_Inr [OF this] assms(2) show ?thesis
    by (auto simp: accrualOnly_fields)
next
  case (Call_deposit pid v)
  with assms(1) have "deposit e pid v s = Inr s'" by simp
  from deposit_Inr [OF this] assms(2) show ?thesis by auto
next
  case (Call_withdraw pid v)
  with assms(1) have "withdraw e pid v s = Inr s'" by simp
  from withdraw_Inr [OF this] assms(2) show ?thesis by auto
next
  case (Call_emergencyWithdraw pid)
  with assms(1) have "emergencyWithdraw e pid s = Inr s'" by simp
  from emergencyWithdraw_Inr [OF this] assms(2) show ?thesis by auto
next
  case (Call_rebalancePosition pid user v)
  with assms(1) have "rebalancePosition e pid user v s = Inr s'" by simp
  from rebalancePosition_Inr [OF this] assms(2) show ?thesis
    by (auto dest!: updatePool_accrualOnly simp: accrualOnly_fields)
next
  case Call_massUpdatePools
  with assms show ?thesis
    by (auto dest!: massUpdatePools_accrualOnly simp: accrualOnly_fields)
next
  case (Call_updatePool pid)
  with assms show ?thesis
    by (auto dest!: updatePool_accrualOnly simp: accrualOnly_fields)
next
  case (Call_setRewardPerBlock v)
  with assms show ?thesis
    by (auto simp: setRewardPerBlock_def onlyOwner_def bindR_Inr_iff accrualOnly_fields
        split: if_splits dest!: massUpdatePools_accrualOnly)
next
  case (Call_setEmergencyWithdrawFee v)
  with assms show ?thesis
    by (auto simp: setEmergencyWithdrawFee_def onlyOwner_def split: if_splits)
next
  case (Call_toggleEmergencyWithdraw pid enabled)
  with assms show ?thesis
    by (auto simp: toggleEmergencyWithdraw_def onlyOwner_def setPool_def split: if_splits)
next
  case (Call_setAuthorizedRebalancer a enabled)
  with assms show ?thesis
    by (auto simp: setAuthorizedRebalancer_def onlyOwner_def split: if_splits)
next
  case Call_pause
  with assms show ?thesis
    by (auto simp: pause_def onlyOwner_def split: if_splits)
next
  case Call_unpause
  with assms show ?thesis
    by (auto simp: unpause_def onlyOwner_def split: if_splits)
next
  case (Call_transferOwnership a)
  with assms show ?thesis
    by (auto simp: transferOwnership_def onlyOwner_def split: if_splits)
next
  case Call_renounceOwnership
  with assms show ?thesis
    by (auto simp: renounceOwnership_def onlyOwner_def split: if_splits)
qed

lemma step_fee: "emergencyWithdrawFee s \<le> MAX_FEE \<Longrightarrow> emergencyWithdrawFee (step a s) \<le> MAX_FEE"
proof (cases a)
  case (Tx e c)
  assume "emergencyWithdrawFee s \<le> MAX_FEE"
  then show ?thesis
    using Tx dispatch_fee [of e c s] by (cases "dispatch e c s") simp_all
next
  case (Tokens ledger)
  assume "emergencyWithdrawFee s \<le> MAX_FEE"
  then show ?thesis using Tokens by simp
qed

lemma run_fee: "emergencyWithdrawFee s \<le> MAX_FEE \<Longrightarrow> emergencyWithdrawFee (run s as) \<le> MAX_FEE"
  by (induction as arbitrary: s) (simp_all add: step_fee)

lemma reachable_fee: "emergencyWithdrawFee (run (constructor deployer self ledger) as) \<le> 1000"
  using run_fee [of "constructor deployer self ledger" as]
  by (simp add: constructor_def MAX_FEE_def)

lemma fee_le_stake: "fee \<le> 1000 \<Longrightarrow> staked * fee div 10000 \<le> (staked :: nat)"
proof -
  assume "fee \<le> 1000"
  then have "staked * fee \<le> staked * 10000" by simp
  then have "staked * fee div 10000 \<le> staked * 10000 div 10000" by (rule div_le_mono)
  then show ?thesis by simp
qed

lemma actors_differ: "alice \<noteq> farm" "farm \<noteq> alice" "admin \<noteq> alice" "alice \<noteq> admin"
  by (simp_all add: alice_def farm_def admin_def)

lemma drained_fields:
  "poolInfo drained =
     [\<lparr>stakingToken = tokenT, rewardToken = tokenT, allocPoint = 1, lastRewardBlock = 3,
        accRewardPerShare = 10000000000000000000000000000, totalStaked = 101,
        minLockPeriod = 0, isEmergencyWithdrawEnabled = True\<rparr>]"
  "userPositions drained 0 alice =
     \<lparr>amount = 101, posLastRewardBlock = 3, rewardDebt = 1010000000000000000,
      lockEndTime = 36, isActive = True\<rparr>"
  "emergencyWithdrawFee drained = 500"
  "balanceOf (bank drained) tokenT farm = 1"
  "balanceOf (bank drained) tokenT alice = 999"
  "this drained = farm"
  by (simp_all add: drained_def model_defs)

lemma exitable_fields:
  "poolInfo exitable =
     [\<lparr>stakingToken = tokenT, rewardToken = tokenR, allocPoint = 1, lastRewardBlock = 2,
        accRewardPerShare = 0, totalStaked = 100,
        minLockPeriod = 3600, isEmergencyWithdrawEnabled = True\<rparr>]"
  "userPositions exitable 0 alice =
     \<lparr>amount = 100, posLastRewardBlock = 2, rewardDebt = 0,
      lockEndTime = 3624, isActive = True\<rparr>"
  "emergencyWithdrawFee exitable = 500"
  "balanceOf (bank exitable) tokenT farm = 100"
  "balanceOf (bank exitable) tokenT alice = 900"
  "this exitable = farm"
  "events exitable = [PoolAdded 0 tokenT tokenR, Deposit alice 0 100]"
  by (simp_all add: exitable_def model_defs)

text \<open>
  C4, as stated, fails: in the reachable state \<open>drained\<close> the pool has the emergency
  exit enabled and alice holds a stake of 101, yet \<open>emergencyWithdraw\<close> pays her nothing
  and reverts. The pool rewards in its own staking token, an earlier settlement took the
  reward out of the staked principal, and the single unit left in custody does not cover
  the payout of 96.
\<close>

theorem emergencyWithdraw_short_custody_counterexample:
  "0 < length (poolInfo drained)
   \<and> isEmergencyWithdrawEnabled (poolInfo drained ! 0)
   \<and> 0 < amount (userPositions drained 0 (msg_sender (at alice 3)))
   \<and> emergencyWithdraw (at alice 3) 0 drained
       = Inl (Revert ''ERC20: transfer amount exceeds balance'')"
  by (simp add: emergencyWithdraw_def drained_fields at_def Let_def mul256_def div256_def
      sub256_def MAX_UINT256_def safeTransfer_def setPool_def setPosition_def)

text \<open>
  C4, amended. In every state reachable from deployment, for every pool with the
  emergency exit enabled and every caller whose position holds \<open>amount > 0\<close>: provided
  \<open>amount * emergencyWithdrawFee\<close> does not exceed \<open>2 ^ 256 - 1\<close> and the contract's
  custody of the staking token covers \<open>amount - fee\<close>, where
  \<open>fee = amount * emergencyWithdrawFee div 10000\<close>, the call succeeds whatever the time
  and the lock; it moves exactly \<open>amount - fee\<close> of the staking token from custody to the
  caller and touches no other balance, sets the position to \<open>amount = 0\<close>,
  \<open>rewardDebt = 0\<close>, \<open>isActive = false\<close>, lowers the pool's \<open>totalStaked\<close> by the
  whole \<open>amount\<close>, leaves the accumulator and accrual height as they are, and appends
  the single event \<open>EmergencyWithdraw(caller, pid, amount - fee)\<close>. Otherwise the call
  reverts.
\<close>

theorem emergencyWithdraw_pays_after_fee:
  assumes "s = run (constructor deployer self ledger) as"
    and "pid < length (poolInfo s)"
    and "isEmergencyWithdrawEnabled (poolInfo s ! pid)"
    and "0 < amount (userPositions s pid (msg_sender e))"
  shows
   "(let pool = poolInfo s ! pid;
         position = userPositions s pid (msg_sender e);
         fee = amount position * emergencyWithdrawFee s div 10000;
         payout = amount position - fee
     in emergencyWithdraw e pid s =
       (if amount position * emergencyWithdrawFee s \<le> MAX_UINT256
           \<and> payout \<le> balanceOf (bank s) (stakingToken pool) (this s)
        then Inr (s\<lparr>poolInfo := (poolInfo s)
                        [pid := pool\<lparr>totalStaked := totalStaked pool - amount position\<rparr>],
                    userPositions := (userPositions s)(pid := (userPositions s pid)
                        (msg_sender e :=
                           position\<lparr>amount := 0, rewardDebt := 0, isActive := False\<rparr>)),
                    bank := moveTokens (stakingToken pool) (this s) (msg_sender e) payout
                              (bank s),
                    events := events s @ [EmergencyWithdraw (msg_sender e) pid payout]\<rparr>)
        else if amount position * emergencyWithdrawFee s \<le> MAX_UINT256
        then Inl (Revert ''ERC20: transfer amount exceeds balance'')
        else Inl (Panic 0x11)))"
proof -
  have inv: "consistent s"
    unfolding assms(1) by (rule run_consistent [OF constructor_consistent])
  have fee: "emergencyWithdrawFee s \<le> 1000"
    unfolding assms(1) by (rule reachable_fee)
  have 1: "amount (userPositions s pid (msg_sender e)) * emergencyWithdrawFee s div 10000
            \<le> amount (userPositions s pid (msg_sender e))"
    using fee by (rule fee_le_stake)
  have 2: "amount (userPositions s pid (msg_sender e)) \<le> totalStaked (poolInfo s ! pid)"
    using inv assms(2) by (rule consistent_stake_le)
  show ?thesis
    unfolding Let_def emergencyWithdraw_eq [OF assms(2) assms(4) assms(3) refl refl]
    using 1 2 by simp
qed

text \<open>
  In \<open>exitable\<close> alice's 100 units are locked until time 3624. At block 3 (time 36)
  the emergency exit pays her 95, keeps the fee of 5 in custody, empties her position
  and the pool, and logs \<open>EmergencyWithdraw(alice, 0, 95)\<close>. In \<open>drained\<close> custody is
  short and the call reverts.
\<close>

theorem emergencyWithdraw_pays_after_fee_witness:
  "0 < length (poolInfo exitable)
   \<and> isEmergencyWithdrawEnabled (poolInfo exitable ! 0)
   \<and> 0 < amount (userPositions exitable 0 (msg_sender (at alice 3)))
   \<and> block_timestamp (at alice 3) < lockEndTime (userPositions exitable 0 alice)
   \<and> emergencyWithdraw (at alice 3) 0 exitable =
       Inr (exitable\<lparr>poolInfo := (poolInfo exitable)
                        [0 := (poolInfo exitable ! 0)\<lparr>totalStaked := 0\<rparr>],
                    userPositions := (userPositions exitable)(0 := (userPositions exitable 0)
                        (alice := (userPositions exitable 0 alice)
                           \<lparr>amount := 0, rewardDebt := 0, isActive := False\<rparr>)),
                    bank := moveTokens tokenT farm alice 95 (bank exitable),
                    events := events exitable @ [EmergencyWithdraw alice 0 95]\<rparr>)
   \<and> balanceOf (moveTokens tokenT farm alice 95 (bank exitable)) tokenT alice = 995
   \<and> balanceOf (moveTokens tokenT farm alice 95 (bank exitable)) tokenT farm = 5
   \<and> 0 < length (poolInfo drained)
   \<and> isEmergencyWithdrawEnabled (poolInfo drained ! 0)
   \<and> 0 < amount (userPositions drained 0 (msg_sender (at alice 3)))
   \<and> emergencyWithdraw (at alice 3) 0 drained
       = Inl (Revert ''ERC20: transfer amount exceeds balance'')"
  using emergencyWithdraw_pays_after_fee [OF exitable_def, of 0 "at alice 3"]
    emergencyWithdraw_pays_after_fee [OF drained_def, of 0 "at alice 3"]
  by (simp add: exitable_fields drained_fields at_def Let_def MAX_UINT256_def moveTokens_def
      actors_differ)

subsection \<open>Deposit followed by withdrawal\<close>

lemma safeTransferFrom_custody:
  "safeTransferFrom token src (this s) v s = Inr s' \<Longrightarrow>
     v \<le> balanceOf (bank s') token (this s') \<and> this s' = this s"
  by (auto simp: safeTransferFrom_def moveTokens_def Let_def split: if_splits)

lemma deposit_leaves:
  assumes "deposit e pid v s = Inr s'"
  shows "pid < length (poolInfo s')"
    and "block_number e \<le> lastRewardBlock (poolInfo s' ! pid)"
    and "amount (userPositions s' pid (msg_sender e)) * accRewardPerShare (poolInfo s' ! pid)
           \<le> MAX_UINT256"
    and "rewardDebt (userPositions s' pid (msg_sender e))
           = amount (userPositions s' pid (msg_sender e))
               * accRewardPerShare (poolInfo s' ! pid) div PRECISION"
    and "v \<le> balanceOf (bank s') (stakingToken (poolInfo s' ! pid)) (this s')"
proof -
  let ?u = "msg_sender e"
  from assms have pre: "\<not> paused s" "pid < length (poolInfo s)" "0 < v"
    by (auto simp: deposit_def split: if_splits)
  from assms pre obtain s1 s2 s3 where
    s1: "updatePool e pid s = Inr s1" and
    s2: "(if 0 < amount (userPositions s1 pid ?u)
          then claimPending e pid s1 else Inr s1) = Inr s2" and
    s3: "safeTransferFrom (stakingToken (poolInfo s2 ! pid)) ?u (this s2) v s2 = Inr s3" and
    fits: "(amount (userPositions s3 pid ?u) + v) * accRewardPerShare (poolInfo s3 ! pid)
             \<le> MAX_UINT256" and
    s': "s' = emit (Deposit ?u pid v)
              (setPool pid ((poolInfo s3 ! pid)\<lparr>totalStaked := totalStaked (poolInfo s3 ! pid) + v\<rparr>)
                (setPosition pid ?u
                   ((userPositions s3 pid ?u)
                      \<lparr>amount := amount (userPositions s3 pid ?u) + v,
                       posLastRewardBlock := block_number e,
                       rewardDebt := (amount (userPositions s3 pid ?u) + v)
                                       * accRewardPerShare (poolInfo s3 ! pid) div PRECISION,
                       lockEndTime := block_timestamp e + minLockPeriod (poolInfo s3 ! pid),
                       isActive := True\<rparr>) s3))"
    by (auto simp: deposit_def Let_def checked_Inr_iff)
  from updatePool_Inr [OF s1] obtain acc lb where
    lb: "block_number e \<le> lb" and
    s1_eq: "s1 = setPool pid ((poolInfo s ! pid)\<lparr>accRewardPerShare := acc, lastRewardBlock := lb\<rparr>) s"
    by blast
  from settle_Inr [OF s2] obtain b2 evs2 where s2_eq: "s2 = s1\<lparr>bank := b2, events := evs2\<rparr>"
    by blast
  from safeTransferFrom_Inr [OF s3] obtain b3 where s3_eq: "s3 = s2\<lparr>bank := b3\<rparr>"
    by blast
  have pools3: "poolInfo s3 = (poolInfo s)[pid := (poolInfo s ! pid)
                   \<lparr>accRewardPerShare := acc, lastRewardBlock := lb\<rparr>]"
    by (simp add: s3_eq s2_eq s1_eq setPool_def)
  show "pid < length (poolInfo s')"
    using pre by (simp add: s' emit_def setPool_def setPosition_def pools3)
  show "block_number e \<le> lastRewardBlock (poolInfo s' ! pid)"
    using pre lb by (simp add: s' emit_def setPool_def setPosition_def pools3)
  show "amount (userPositions s' pid ?u) * accRewardPerShare (poolInfo s' ! pid) \<le> MAX_UINT256"
    using pre fits by (simp add: s' emit_def setPool_def setPosition_def pools3)
  show "rewardDebt (userPositions s' pid ?u)
           = amount (userPositions s' pid ?u) * accRewardPerShare (poolInfo s' ! pid) div PRECISION"
    using pre by (simp add: s' emit_def setPool_def setPosition_def pools3)
  have "v \<le> balanceOf (bank s3) (stakingToken (poolInfo s2 ! pid)) (this s3)"
    using safeTransferFrom_custody [OF s3] by auto
  moreover have "stakingToken (poolInfo s2 ! pid) = stakingToken (poolInfo s' ! pid)"
    using pre by (simp add: s' emit_def setPool_def setPosition_def pools3 s2_eq s1_eq)
  ultimately show "v \<le> balanceOf (bank s') (stakingToken (poolInfo s' ! pid)) (this s')"
    by (simp add: s' emit_def setPool_def setPosition_def)
qed

lemma withdraw_settled:
  assumes "pid < length (poolInfo t)"
    and "x \<le> amount (userPositions t pid (msg_sender e))"
    and "lockEndTime (userPositions t pid (msg_sender e)) \<le> block_timestamp e"
    and "block_number e \<le> lastRewardBlock (poolInfo t ! pid)"
    and "amount (userPositions t pid (msg_sender e)) * accRewardPerShare (poolInfo t ! pid)
           \<le> MAX_UINT256"
    and "rewardDebt (userPositions t pid (msg_sender e))
           = amount (userPositions t pid (msg_sender e))
               * accRewardPerShare (poolInfo t ! pid) div PRECISION"
    and "x \<le> totalStaked (poolInfo t ! pid)"
    and "x \<le> balanceOf (bank t) (stakingToken (poolInfo t ! pid)) (this t)"
  shows "withdraw e pid x t =
     Inr (t\<lparr>poolInfo := (poolInfo t)[pid := (poolInfo t ! pid)
                 \<lparr>totalStaked := totalStaked (poolInfo t ! pid) - x\<rparr>],
             userPositions := (userPositions t)(pid := (userPositions t pid)
                 (msg_sender e := (userPositions t pid (msg_sender e))
                    \<lparr>amount := amount (userPositions t pid (msg_sender e)) - x,
                     rewardDebt := (amount (userPositions t pid (msg_sender e)) - x)
                        * accRewardPerShare (poolInfo t ! pid) div PRECISION,
                     isActive := (if amount (userPositions t pid (msg_sender e)) - x = 0
                                  then False
                                  else isActive (userPositions t pid (msg_sender e)))\<rparr>)),
             bank := moveTokens (stakingToken (poolInfo t ! pid)) (this t) (msg_sender e) x
                       (bank t),
             events := events t @ [Withdraw (msg_sender e) pid x]\<rparr>)"
proof -
  let ?u = "msg_sender e"
  have up: "updatePool e pid t = Inr t"
    using assms(1,4) by (rule updatePool_early)
  have claim: "claimPending e pid t = Inr t"
    using assms(5,6)
    by (simp add: claimPending_def Let_def mul256_def div256_def sub256_def PRECISION_def)
  have "(amount (userPositions t pid ?u) - x) * accRewardPerShare (poolInfo t ! pid)
          \<le> amount (userPositions t pid ?u) * accRewardPerShare (poolInfo t ! pid)"
    by (rule mult_le_mono1) simp
  with assms(5) have fits:
    "(amount (userPositions t pid ?u) - x) * accRewardPerShare (poolInfo t ! pid) \<le> MAX_UINT256"
    by linarith
  show ?thesis
    using assms(1,2,3,7,8) fits
    by (simp add: withdraw_def up claim Let_def mul256_def div256_def sub256_def PRECISION_def
        safeTransfer_def setPool_def setPosition_def emit_def)
qed


lemma moveTokens_back:
  assumes "v \<le> balanceOf t token src"
  shows "balanceOf (moveTokens token dst src v (moveTokens token src dst v t)) = balanceOf t"
proof -
  have "balanceOf (moveTokens token dst src v (moveTokens token src dst v t)) token' holder
          = balanceOf t token' holder" for token' holder
    using assms by (auto simp: moveTokens_def Let_def)
  then show ?thesis by (intro ext)
qed

lemma deposit_fresh:
  assumes "deposit e pid v s = Inr s'" and "amount (userPositions s pid (msg_sender e)) = 0"
  shows "events s' = events s @ [Deposit (msg_sender e) pid v]"
    and "balanceOf (bank s')
           = balanceOf (moveTokens (stakingToken (poolInfo s ! pid)) (msg_sender e) (this s) v
               (bank s))"
    and "v \<le> balanceOf (bank s) (stakingToken (poolInfo s ! pid)) (msg_sender e)"
proof -
  let ?u = "msg_sender e"
  from assms have pre: "\<not> paused s" "pid < length (poolInfo s)" "0 < v"
    by (auto simp: deposit_def split: if_splits)
  from assms(1) pre obtain s1 s2 s3 where
    s1: "updatePool e pid s = Inr s1" and
    s2: "(if 0 < amount (userPositions s1 pid ?u)
          then claimPending e pid s1 else Inr s1) = Inr s2" and
    s3: "safeTransferFrom (stakingToken (poolInfo s2 ! pid)) ?u (this s2) v s2 = Inr s3" and
    s': "s' = emit (Deposit ?u pid v)
              (setPool pid ((poolInfo s3 ! pid)\<lparr>totalStaked := totalStaked (poolInfo s3 ! pid) + v\<rparr>)
                (setPosition pid ?u
                   ((userPositions s3 pid ?u)
                      \<lparr>amount := amount (userPositions s3 pid ?u) + v,
                       posLastRewardBlock := block_number e,
                       rewardDebt := (amount (userPositions s3 pid ?u) + v)
                                       * accRewardPerShare (poolInfo s3 ! pid) div PRECISION,
                       lockEndTime := block_timestamp e + minLockPeriod (poolInfo s3 ! pid),
                       isActive := True\<rparr>) s3))"
    by (auto simp: deposit_def Let_def checked_Inr_iff)
  from updatePool_Inr [OF s1] obtain acc lb where
    s1_eq: "s1 = setPool pid ((poolInfo s ! pid)\<lparr>accRewardPerShare := acc, lastRewardBlock := lb\<rparr>) s"
    by blast
  have "amount (userPositions s1 pid ?u) = 0"
    using assms(2) by (simp add: s1_eq setPool_def)
  with s2 have s2_eq: "s2 = s1" by simp
  have tok: "stakingToken (poolInfo s2 ! pid) = stakingToken (poolInfo s ! pid)"
    using pre by (simp add: s2_eq s1_eq setPool_def)
  have same: "bank s2 = bank s" "this s2 = this s" "events s2 = events s"
    by (simp_all add: s2_eq s1_eq setPool_def)
  from s3 have ok: "v \<le> balanceOf (bank s2) (stakingToken (poolInfo s2 ! pid)) ?u"
    and s3_bank: "balanceOf (bank s3)
       = balanceOf (moveTokens (stakingToken (poolInfo s2 ! pid)) ?u (this s2) v (bank s2))"
    and s3_events: "events s3 = events s2"
    by (auto simp: safeTransferFrom_def moveTokens_def Let_def split: if_splits)
  show "events s' = events s @ [Deposit ?u pid v]"
    by (simp add: s' emit_def setPool_def setPosition_def s3_events same)
  show "balanceOf (bank s')
           = balanceOf (moveTokens (stakingToken (poolInfo s ! pid)) ?u (this s) v (bank s))"
    using s3_bank by (simp add: s' emit_def setPool_def setPosition_def tok same)
  show "v \<le> balanceOf (bank s) (stakingToken (poolInfo s ! pid)) ?u"
    using ok by (simp add: tok same)
qed

lemma claimPending_Inr_eq:
  assumes "claimPending e pid s = Inr s'"
  shows "s' =
    (let pool = poolInfo s ! pid;
         position = userPositions s pid (msg_sender e);
         pending = amount position * accRewardPerShare pool div PRECISION - rewardDebt position;
         custody = balanceOf (bank s) (rewardToken pool) (this s)
     in if 0 < pending
        then s\<lparr>bank := moveTokens (rewardToken pool) (this s) (msg_sender e)
                          (if pending > custody then custody else pending) (bank s),
                events := events s @ [RewardClaimed (msg_sender e) pid pending]\<rparr>
        else s)"
  using assms
  by (auto simp: claimPending_def Let_def checked_Inr_iff safeRewardTransfer_eq emit_def min_def
      split: if_splits)

lemma moveTokens_balanceOf:
  "balanceOf t = balanceOf t' \<Longrightarrow>
   balanceOf (moveTokens token src dst v t) = balanceOf (moveTokens token src dst v t')"
  by (simp add: moveTokens_def Let_def)

lemma deposit_settles:
  assumes dep: "deposit e pid v s = Inr s'"
  shows "map_sum id (\<lambda>t. accRewardPerShare (poolInfo t ! pid)) (updatePool e pid s)
           = Inr (accRewardPerShare (poolInfo s' ! pid))"
    and "(let prior = userPositions s pid (msg_sender e);
              pending = amount prior * accRewardPerShare (poolInfo s' ! pid) div PRECISION
                          - rewardDebt prior;
              custody = balanceOf (bank s) (rewardToken (poolInfo s ! pid)) (this s);
              settled = (if 0 < amount prior \<and> 0 < pending
                         then moveTokens (rewardToken (poolInfo s ! pid)) (this s) (msg_sender e)
                                (if pending > custody then custody else pending) (bank s)
                         else bank s)
          in events s' = events s
                 @ (if 0 < amount prior \<and> 0 < pending
                    then [RewardClaimed (msg_sender e) pid pending] else [])
                 @ [Deposit (msg_sender e) pid v]
             \<and> balanceOf (bank s')
                 = balanceOf (moveTokens (stakingToken (poolInfo s ! pid)) (msg_sender e) (this s)
                                v settled)
             \<and> v \<le> balanceOf settled (stakingToken (poolInfo s ! pid)) (msg_sender e))"
proof -
  let ?u = "msg_sender e"
  from dep have pre: "\<not> paused s" "pid < length (poolInfo s)" "0 < v"
    by (auto simp: deposit_def split: if_splits)
  from dep pre obtain s1 s2 s3 where
    s1: "updatePool e pid s = Inr s1" and
    s2: "(if 0 < amount (userPositions s1 pid ?u)
          then claimPending e pid s1 else Inr s1) = Inr s2" and
    s3: "safeTransferFrom (stakingToken (poolInfo s2 ! pid)) ?u (this s2) v s2 = Inr s3" and
    s': "s' = emit (Deposit ?u pid v)
              (setPool pid ((poolInfo s3 ! pid)\<lparr>totalStaked := totalStaked (poolInfo s3 ! pid) + v\<rparr>)
                (setPosition pid ?u
                   ((userPositions s3 pid ?u)
                      \<lparr>amount := amount (userPositions s3 pid ?u) + v,
                       posLastRewardBlock := block_number e,
                       rewardDebt := (amount (userPositions s3 pid ?u) + v)
                                       * accRewardPerShare (poolInfo s3 ! pid) div PRECISION,
                       lockEndTime := block_timestamp e + minLockPeriod (poolInfo s3 ! pid),
                       isActive := True\<rparr>) s3))"
    by (auto simp: deposit_def Let_def checked_Inr_iff)
  from updatePool_Inr [OF s1] obtain acc lb where
    s1_eq: "s1 = setPool pid ((poolInfo s ! pid)\<lparr>accRewardPerShare := acc, lastRewardBlock := lb\<rparr>) s"
    by blast
  have s1_fields: "userPositions s1 = userPositions s" "bank s1 = bank s" "this s1 = this s"
    "events s1 = events s" "accRewardPerShare (poolInfo s1 ! pid) = acc"
    "rewardToken (poolInfo s1 ! pid) = rewardToken (poolInfo s ! pid)"
    "stakingToken (poolInfo s1 ! pid) = stakingToken (poolInfo s ! pid)"
    using pre by (simp_all add: s1_eq setPool_def)
  let ?prior = "userPositions s pid ?u"
  let ?pending = "amount ?prior * acc div PRECISION - rewardDebt ?prior"
  let ?custody = "balanceOf (bank s) (rewardToken (poolInfo s ! pid)) (this s)"
  let ?settles = "0 < amount ?prior \<and> 0 < ?pending"
  let ?settled = "if ?settles
                  then moveTokens (rewardToken (poolInfo s ! pid)) (this s) ?u
                         (if ?pending > ?custody then ?custody else ?pending) (bank s)
                  else bank s"
  have s2_eq: "s2 = s1\<lparr>bank := ?settled,
                       events := events s @ (if ?settles then [RewardClaimed ?u pid ?pending] else [])\<rparr>"
  proof (cases "0 < amount ?prior")
    case True
    with s2 have "claimPending e pid s1 = Inr s2" by (simp add: s1_fields)
    from claimPending_Inr_eq [OF this] True show ?thesis
      by (simp add: Let_def s1_fields)
  next
    case False
    with s2 have "s2 = s1" by (simp add: s1_fields)
    with False show ?thesis by (simp add: s1_fields [symmetric])
  qed
  have s2_fields: "this s2 = this s" "bank s2 = ?settled"
    "stakingToken (poolInfo s2 ! pid) = stakingToken (poolInfo s ! pid)"
    "accRewardPerShare (poolInfo s2 ! pid) = acc"
    "events s2 = events s @ (if ?settles then [RewardClaimed ?u pid ?pending] else [])"
    by (simp_all add: s2_eq s1_fields)
  from s3 have ok: "v \<le> balanceOf (bank s2) (stakingToken (poolInfo s2 ! pid)) ?u"
    and s3_bank: "balanceOf (bank s3)
       = balanceOf (moveTokens (stakingToken (poolInfo s2 ! pid)) ?u (this s2) v (bank s2))"
    and s3_rest: "events s3 = events s2" "poolInfo s3 = poolInfo s2"
    by (auto simp: safeTransferFrom_def moveTokens_def Let_def split: if_splits)
  have acc': "accRewardPerShare (poolInfo s' ! pid) = acc"
    using pre by (simp add: s' emit_def setPool_def setPosition_def s3_rest s2_eq s1_eq)
  show "map_sum id (\<lambda>t. accRewardPerShare (poolInfo t ! pid)) (updatePool e pid s)
           = Inr (accRewardPerShare (poolInfo s' ! pid))"
    by (simp add: s1 acc' s1_fields)
  have ev: "events s' = events s @ (if ?settles then [RewardClaimed ?u pid ?pending] else [])
              @ [Deposit ?u pid v]"
    by (simp add: s' emit_def setPool_def setPosition_def s3_rest s2_fields)
  have bal: "balanceOf (bank s')
       = balanceOf (moveTokens (stakingToken (poolInfo s ! pid)) ?u (this s) v ?settled)"
    using s3_bank by (simp add: s' emit_def setPool_def setPosition_def s2_fields)
  have le: "v \<le> balanceOf ?settled (stakingToken (poolInfo s ! pid)) ?u"
    using ok by (simp add: s2_fields)
  show "(let prior = userPositions s pid (msg_sender e);
              pending = amount prior * accRewardPerShare (poolInfo s' ! pid) div PRECISION
                          - rewardDebt prior;
              custody = balanceOf (bank s) (rewardToken (poolInfo s ! pid)) (this s);
              settled = (if 0 < amount prior \<and> 0 < pending
                         then moveTokens (rewardToken (poolInfo s ! pid)) (this s) (msg_sender e)
                                (if pending > custody then custody else pending) (bank s)
                         else bank s)
          in events s' = events s
                 @ (if 0 < amount prior \<and> 0 < pending
                    then [RewardClaimed (msg_sender e) pid pending] else [])
                 @ [Deposit (msg_sender e) pid v]
             \<and> balanceOf (bank s')
                 = balanceOf (moveTokens (stakingToken (poolInfo s ! pid)) (msg_sender e) (this s)
                                v settled)
             \<and> v \<le> balanceOf settled (stakingToken (poolInfo s ! pid)) (msg_sender e))"
    unfolding Let_def acc' using ev bal le by simp
qed

lemma funded_round_trip:
  "deposit (at alice 3) 0 50 funded = Inr fundedTopUp"
  "withdraw (at alice 3) 0 50 fundedTopUp = Inr fundedBack"
  "minLockPeriod (poolInfo funded ! 0) = 0"
  "balanceOf (bank funded) tokenR alice = 0"
  "balanceOf (bank fundedBack) tokenR alice = 1000000000000000000"
  "events fundedBack = events funded @
     [RewardClaimed alice 0 1000000000000000000, Deposit alice 0 50, Withdraw alice 0 50]"
  by (simp_all add: fundedBack_def fundedTopUp_def funded_def ledgerFunded_def model_defs)

text \<open>
  C7, as stated, fails: in the reachable state \<open>funded\<close> alice already has 100 staked
  since block 2. At block 3 she deposits 50 and withdraws 50 at once, with no lock and no
  height elapsed in between, and the round trip pays her a reward of \<open>1e18\<close>: the
  deposit first settles what her earlier stake had earned.
\<close>

theorem round_trip_pays_earlier_reward_counterexample:
  "deposit (at alice 3) 0 50 funded = Inr fundedTopUp
   \<and> block_number (at alice 3) = block_number (at alice 3)
   \<and> block_timestamp (at alice 3) + minLockPeriod (poolInfo funded ! 0)
        \<le> block_timestamp (at alice 3)
   \<and> withdraw (at alice 3) 0 50 fundedTopUp = Inr fundedBack
   \<and> balanceOf (bank funded) tokenR alice = 0
   \<and> balanceOf (bank fundedBack) tokenR alice = 1000000000000000000
   \<and> events fundedBack = events funded @
        [RewardClaimed alice 0 1000000000000000000, Deposit alice 0 50, Withdraw alice 0 50]"
  by (simp add: funded_round_trip)

text \<open>
  C7, amended. Take any state, pool, account and amount \<open>x\<close> for which \<open>deposit\<close>
  succeeds, and let the same account withdraw \<open>x\<close> in the same block, at a time not
  before the lock set by the deposit expires. The withdrawal succeeds; it pays no reward
  (it emits \<open>Withdraw\<close> and no \<open>RewardClaimed\<close>, and the only tokens that move are the
  \<open>x\<close> units of the staking token from custody to the account); the position's stake
  and the pool's \<open>totalStaked\<close> are back at their values before the deposit.

  The deposit itself first settles the stake the account already held. With the
  accumulator as the deposit's accrual leaves it, the pending reward is
  \<open>amount * accRewardPerShare div 1e12 - rewardDebt\<close> of the position before the deposit.
  When that stake and that reward are both positive, the deposit pays the smaller of the
  pending reward and the custody of the reward token to the account and logs
  \<open>RewardClaimed\<close> with the pending amount, then \<open>Deposit\<close>; otherwise it pays nothing
  and logs \<open>Deposit\<close> alone. Either way that payment is all the two calls together
  change in any token balance: with no stake before the deposit, or nothing pending on
  it, every balance ends exactly as it began.
\<close>

theorem deposit_then_withdraw:
  assumes dep: "deposit e1 pid x s = Inr s1"
    and who: "msg_sender e2 = msg_sender e1"
    and height: "block_number e2 = block_number e1"
    and expired: "block_timestamp e1 + minLockPeriod (poolInfo s ! pid) \<le> block_timestamp e2"
  shows "0 < x \<and>
    withdraw e2 pid x s1 =
      Inr (s1\<lparr>poolInfo := (poolInfo s1)[pid := (poolInfo s1 ! pid)
                   \<lparr>totalStaked := totalStaked (poolInfo s ! pid)\<rparr>],
              userPositions := (userPositions s1)(pid := (userPositions s1 pid)
                 (msg_sender e1 := (userPositions s1 pid (msg_sender e1))
                    \<lparr>amount := amount (userPositions s pid (msg_sender e1)),
                     rewardDebt := amount (userPositions s pid (msg_sender e1))
                        * accRewardPerShare (poolInfo s1 ! pid) div PRECISION,
                     isActive := (amount (userPositions s pid (msg_sender e1)) \<noteq> 0)\<rparr>)),
              bank := moveTokens (stakingToken (poolInfo s ! pid)) (this s) (msg_sender e1) x
                        (bank s1),
              events := events s1 @ [Withdraw (msg_sender e1) pid x]\<rparr>)
    \<and> (amount (userPositions s pid (msg_sender e1)) = 0 \<longrightarrow>
         events s1 = events s @ [Deposit (msg_sender e1) pid x]
         \<and> balanceOf (moveTokens (stakingToken (poolInfo s ! pid)) (this s) (msg_sender e1) x
              (bank s1)) = balanceOf (bank s))
    \<and> map_sum id (\<lambda>t. accRewardPerShare (poolInfo t ! pid)) (updatePool e1 pid s)
         = Inr (accRewardPerShare (poolInfo s1 ! pid))
    \<and> (let prior = userPositions s pid (msg_sender e1);
            pending = amount prior * accRewardPerShare (poolInfo s1 ! pid) div PRECISION
                        - rewardDebt prior;
            custody = balanceOf (bank s) (rewardToken (poolInfo s ! pid)) (this s);
            settled = (if 0 < amount prior \<and> 0 < pending
                       then moveTokens (rewardToken (poolInfo s ! pid)) (this s) (msg_sender e1)
                              (if pending > custody then custody else pending) (bank s)
                       else bank s)
        in events s1 = events s
               @ (if 0 < amount prior \<and> 0 < pending
                  then [RewardClaimed (msg_sender e1) pid pending] else [])
               @ [Deposit (msg_sender e1) pid x]
           \<and> balanceOf (bank s1)
               = balanceOf (moveTokens (stakingToken (poolInfo s ! pid)) (msg_sender e1) (this s)
                              x settled)
           \<and> balanceOf (moveTokens (stakingToken (poolInfo s ! pid)) (this s) (msg_sender e1) x
                (bank s1)) = balanceOf settled)"
proof -
  let ?u = "msg_sender e1"
  from deposit_Inr [OF dep] obtain acc lb b evs where
    pid: "pid < length (poolInfo s)" and x: "0 < x" and
    s1: "s1 = s\<lparr>poolInfo := (poolInfo s)[pid := (poolInfo s ! pid)
                   \<lparr>accRewardPerShare := acc, lastRewardBlock := lb,
                    totalStaked := totalStaked (poolInfo s ! pid) + x\<rparr>],
              userPositions := (userPositions s)(pid := (userPositions s pid)
                 (?u := (userPositions s pid ?u)
                    \<lparr>amount := amount (userPositions s pid ?u) + x,
                     posLastRewardBlock := block_number e1,
                     rewardDebt := (amount (userPositions s pid ?u) + x) * acc div PRECISION,
                     lockEndTime := block_timestamp e1 + minLockPeriod (poolInfo s ! pid),
                     isActive := True\<rparr>)),
              bank := b, events := evs\<rparr>"
    by blast
  note leaves = deposit_leaves [OF dep]
  have w: "withdraw e2 pid x s1 =
     Inr (s1\<lparr>poolInfo := (poolInfo s1)[pid := (poolInfo s1 ! pid)
                 \<lparr>totalStaked := totalStaked (poolInfo s1 ! pid) - x\<rparr>],
             userPositions := (userPositions s1)(pid := (userPositions s1 pid)
                 (msg_sender e2 := (userPositions s1 pid (msg_sender e2))
                    \<lparr>amount := amount (userPositions s1 pid (msg_sender e2)) - x,
                     rewardDebt := (amount (userPositions s1 pid (msg_sender e2)) - x)
                        * accRewardPerShare (poolInfo s1 ! pid) div PRECISION,
                     isActive := (if amount (userPositions s1 pid (msg_sender e2)) - x = 0
                                  then False
                                  else isActive (userPositions s1 pid (msg_sender e2)))\<rparr>)),
             bank := moveTokens (stakingToken (poolInfo s1 ! pid)) (this s1) (msg_sender e2) x
                       (bank s1),
             events := events s1 @ [Withdraw (msg_sender e2) pid x]\<rparr>)"
  proof (rule withdraw_settled)
    show "pid < length (poolInfo s1)" by (rule leaves(1))
    show "x \<le> amount (userPositions s1 pid (msg_sender e2))"
      using pid by (simp add: who s1)
    show "lockEndTime (userPositions s1 pid (msg_sender e2)) \<le> block_timestamp e2"
      using pid expired by (simp add: who s1)
    show "block_number e2 \<le> lastRewardBlock (poolInfo s1 ! pid)"
      using leaves(2) by (simp add: height)
    show "amount (userPositions s1 pid (msg_sender e2)) * accRewardPerShare (poolInfo s1 ! pid)
            \<le> MAX_UINT256"
      using leaves(3) by (simp add: who)
    show "rewardDebt (userPositions s1 pid (msg_sender e2))
            = amount (userPositions s1 pid (msg_sender e2))
                * accRewardPerShare (poolInfo s1 ! pid) div PRECISION"
      using leaves(4) by (simp add: who)
    show "x \<le> totalStaked (poolInfo s1 ! pid)"
      using pid by (simp add: s1)
    show "x \<le> balanceOf (bank s1) (stakingToken (poolInfo s1 ! pid)) (this s1)"
      by (rule leaves(5))
  qed
  have trip: "withdraw e2 pid x s1 =
      Inr (s1\<lparr>poolInfo := (poolInfo s1)[pid := (poolInfo s1 ! pid)
                   \<lparr>totalStaked := totalStaked (poolInfo s ! pid)\<rparr>],
              userPositions := (userPositions s1)(pid := (userPositions s1 pid)
                 (?u := (userPositions s1 pid ?u)
                    \<lparr>amount := amount (userPositions s pid ?u),
                     rewardDebt := amount (userPositions s pid ?u)
                        * accRewardPerShare (poolInfo s1 ! pid) div PRECISION,
                     isActive := (amount (userPositions s pid ?u) \<noteq> 0)\<rparr>)),
              bank := moveTokens (stakingToken (poolInfo s ! pid)) (this s) ?u x (bank s1),
              events := events s1 @ [Withdraw ?u pid x]\<rparr>)"
    unfolding w who using pid by (simp add: s1)
  have fresh: "events s1 = events s @ [Deposit ?u pid x]
         \<and> balanceOf (moveTokens (stakingToken (poolInfo s ! pid)) (this s) ?u x (bank s1))
             = balanceOf (bank s)"
    if zero: "amount (userPositions s pid ?u) = 0"
  proof -
    note f = deposit_fresh [OF dep zero]
    have "balanceOf (moveTokens (stakingToken (poolInfo s ! pid)) (this s) ?u x (bank s1))
        = balanceOf (moveTokens (stakingToken (poolInfo s ! pid)) (this s) ?u x
            (moveTokens (stakingToken (poolInfo s ! pid)) ?u (this s) x (bank s)))"
      using f(2) by (simp add: moveTokens_def Let_def)
    also have "\<dots> = balanceOf (bank s)"
      using f(3) by (rule moveTokens_back)
    finally show ?thesis using f(1) by simp
  qed
  note settles = deposit_settles [OF dep]
  have leg: "(let prior = userPositions s pid ?u;
            pending = amount prior * accRewardPerShare (poolInfo s1 ! pid) div PRECISION
                        - rewardDebt prior;
            custody = balanceOf (bank s) (rewardToken (poolInfo s ! pid)) (this s);
            settled = (if 0 < amount prior \<and> 0 < pending
                       then moveTokens (rewardToken (poolInfo s ! pid)) (this s) ?u
                              (if pending > custody then custody else pending) (bank s)
                       else bank s)
        in events s1 = events s
               @ (if 0 < amount prior \<and> 0 < pending
                  then [RewardClaimed ?u pid pending] else [])
               @ [Deposit ?u pid x]
           \<and> balanceOf (bank s1)
               = balanceOf (moveTokens (stakingToken (poolInfo s ! pid)) ?u (this s) x settled)
           \<and> balanceOf (moveTokens (stakingToken (poolInfo s ! pid)) (this s) ?u x (bank s1))
               = balanceOf settled)"
  proof -
    define settled where "settled =
      (if 0 < amount (userPositions s pid ?u)
            \<and> 0 < amount (userPositions s pid ?u) * accRewardPerShare (poolInfo s1 ! pid)
                    div PRECISION - rewardDebt (userPositions s pid ?u)
       then moveTokens (rewardToken (poolInfo s ! pid)) (this s) ?u
              (if amount (userPositions s pid ?u) * accRewardPerShare (poolInfo s1 ! pid)
                    div PRECISION - rewardDebt (userPositions s pid ?u)
                  > balanceOf (bank s) (rewardToken (poolInfo s ! pid)) (this s)
               then balanceOf (bank s) (rewardToken (poolInfo s ! pid)) (this s)
               else amount (userPositions s pid ?u) * accRewardPerShare (poolInfo s1 ! pid)
                    div PRECISION - rewardDebt (userPositions s pid ?u)) (bank s)
       else bank s)"
    from settles(2) have
      b: "balanceOf (bank s1)
            = balanceOf (moveTokens (stakingToken (poolInfo s ! pid)) ?u (this s) x settled)"
      and le: "x \<le> balanceOf settled (stakingToken (poolInfo s ! pid)) ?u"
      unfolding Let_def settled_def by blast+
    have "balanceOf (moveTokens (stakingToken (poolInfo s ! pid)) (this s) ?u x (bank s1))
        = balanceOf (moveTokens (stakingToken (poolInfo s ! pid)) (this s) ?u x
            (moveTokens (stakingToken (poolInfo s ! pid)) ?u (this s) x settled))"
      using b by (rule moveTokens_balanceOf)
    also have "\<dots> = balanceOf settled"
      using le by (rule moveTokens_back)
    finally have restored:
      "balanceOf (moveTokens (stakingToken (poolInfo s ! pid)) (this s) ?u x (bank s1))
         = balanceOf settled" .
    from settles(2) restored show ?thesis
      unfolding Let_def settled_def by blast
  qed
  from x trip fresh settles(1) leg show ?thesis by blast
qed

lemma at_fields:
  "msg_sender (at sender height) = sender" "block_number (at sender height) = height"
  "block_timestamp (at sender height) = 12 * height"
  by (simp_all add: at_def)

lemma twoPools_fields:
  "poolInfo twoPools =
     [\<lparr>stakingToken = tokenT, rewardToken = tokenR, allocPoint = 50, lastRewardBlock = 1,
        accRewardPerShare = 0, totalStaked = 0, minLockPeriod = 0,
        isEmergencyWithdrawEnabled = False\<rparr>,
      \<lparr>stakingToken = tokenR, rewardToken = tokenT, allocPoint = 60, lastRewardBlock = 1,
        accRewardPerShare = 0, totalStaked = 0, minLockPeriod = 0,
        isEmergencyWithdrawEnabled = False\<rparr>]"
  "userPositions twoPools 0 alice = zeroPosition"
  "this twoPools = farm"
  "events twoPools = [PoolAdded 0 tokenT tokenR, PoolAdded 1 tokenR tokenT]"
  by (simp_all add: twoPools_def model_defs)

lemma twoPools_deposit: "deposit (at alice 2) 0 1000 twoPools = Inr accruing"
  by (simp add: twoPools_def accruing_def model_defs)

lemma funded_fields:
  "poolInfo funded =
     [\<lparr>stakingToken = tokenT, rewardToken = tokenR, allocPoint = 1, lastRewardBlock = 2,
        accRewardPerShare = 0, totalStaked = 100, minLockPeriod = 0,
        isEmergencyWithdrawEnabled = False\<rparr>]"
  "userPositions funded 0 alice =
     \<lparr>amount = 100, posLastRewardBlock = 2, rewardDebt = 0, lockEndTime = 24,
      isActive = True\<rparr>"
  "this funded = farm"
  "balanceOf (bank funded) tokenR farm = 1000000000000000000000000"
  "accRewardPerShare (poolInfo fundedTopUp ! 0) = 10000000000000000000000000000"
  by (simp_all add: fundedTopUp_def funded_def ledgerFunded_def model_defs)

text \<open>
  From \<open>twoPools\<close> alice deposits 1000 into pool 0 (no lock) at block 2, which gives
  \<open>accruing\<close>, and withdraws 1000 in the same block: the stake and \<open>totalStaked\<close> are 0
  again, the log gains \<open>Deposit\<close> and \<open>Withdraw\<close> only, and all balances are as
  before. From \<open>funded\<close>, where she already has 100 staked, her deposit of 50 at block 3
  accrues the pool to \<open>1e28\<close> per share, pays her the pending \<open>1e18\<close> reward tokens and
  logs \<open>RewardClaimed\<close> before \<open>Deposit\<close>; after she takes the 50 out again that
  payment is the only change in any balance.
\<close>

theorem deposit_then_withdraw_witness:
  "deposit (at alice 2) 0 1000 twoPools = Inr accruing
   \<and> msg_sender (at alice 2) = msg_sender (at alice 2)
   \<and> block_number (at alice 2) = block_number (at alice 2)
   \<and> block_timestamp (at alice 2) + minLockPeriod (poolInfo twoPools ! 0)
        \<le> block_timestamp (at alice 2)
   \<and> withdraw (at alice 2) 0 1000 accruing =
      Inr (accruing\<lparr>poolInfo := (poolInfo accruing)[0 := (poolInfo accruing ! 0)
                   \<lparr>totalStaked := 0\<rparr>],
              userPositions := (userPositions accruing)(0 := (userPositions accruing 0)
                 (alice := (userPositions accruing 0 alice)
                    \<lparr>amount := 0, rewardDebt := 0, isActive := False\<rparr>)),
              bank := moveTokens tokenT farm alice 1000 (bank accruing),
              events := events accruing @ [Withdraw alice 0 1000]\<rparr>)
   \<and> events accruing = events twoPools @ [Deposit alice 0 1000]
   \<and> balanceOf (moveTokens tokenT farm alice 1000 (bank accruing)) = balanceOf (bank twoPools)
   \<and> deposit (at alice 3) 0 50 funded = Inr fundedTopUp
   \<and> block_timestamp (at alice 3) + minLockPeriod (poolInfo funded ! 0)
        \<le> block_timestamp (at alice 3)
   \<and> map_sum id (\<lambda>t. accRewardPerShare (poolInfo t ! 0)) (updatePool (at alice 3) 0 funded)
        = Inr 10000000000000000000000000000
   \<and> events fundedTopUp = events funded @
        [RewardClaimed alice 0 1000000000000000000, Deposit alice 0 50]
   \<and> balanceOf (bank fundedTopUp)
        = balanceOf (moveTokens tokenT alice farm 50
            (moveTokens tokenR farm alice 1000000000000000000 (bank funded)))
   \<and> balanceOf (moveTokens tokenT farm alice 50 (bank fundedTopUp))
        = balanceOf (moveTokens tokenR farm alice 1000000000000000000 (bank funded))"
  using deposit_then_withdraw [OF twoPools_deposit, of "at alice 2"]
    deposit_then_withdraw [OF funded_round_trip(1), of "at alice 3"]
  by (simp add: twoPools_fields accruing_fields funded_fields at_fields zeroPosition_def
      twoPools_deposit funded_round_trip(1) Let_def PRECISION_def)


subsection \<open>Reward settlement\<close>





subsection \<open>Pausing\<close>

lemma updatePool_paused:
  "updatePool e pid (s\<lparr>paused := b\<rparr>) = map_sum id (\<lambda>t. t\<lparr>paused := b\<rparr>) (updatePool e pid s)"
  by (simp add: updatePool_def Let_def setPool_def add256_def sub256_def mul256_def div256_def)

lemma claimPending_paused:
  "claimPending e pid (s\<lparr>paused := b\<rparr>)
     = map_sum id (\<lambda>t. t\<lparr>paused := b\<rparr>) (claimPending e pid s)"
  by (simp add: claimPending_def Let_def safeRewardTransfer_eq emit_def
      sub256_def mul256_def div256_def)

lemma withdraw_paused:
  "withdraw e pid v (s\<lparr>paused := b\<rparr>)
     = map_sum id (\<lambda>t. t\<lparr>paused := b\<rparr>) (withdraw e pid v s)"
proof (cases "updatePool e pid s")
  case (Inl err)
  then show ?thesis by (simp add: withdraw_def updatePool_paused)
next
  case s1: (Inr s1)
  show ?thesis
  proof (cases "claimPending e pid s1")
    case (Inl err)
    then show ?thesis by (simp add: withdraw_def updatePool_paused claimPending_paused s1)
  next
    case (Inr s2)
    then show ?thesis
      by (simp add: withdraw_def updatePool_paused claimPending_paused s1 Let_def
          safeTransfer_def setPool_def setPosition_def emit_def
          sub256_def mul256_def div256_def)
  qed
qed

lemma emergencyWithdraw_paused:
  "emergencyWithdraw e pid (s\<lparr>paused := b\<rparr>)
     = map_sum id (\<lambda>t. t\<lparr>paused := b\<rparr>) (emergencyWithdraw e pid s)"
  by (simp add: emergencyWithdraw_def Let_def safeTransfer_def setPool_def setPosition_def
      emit_def sub256_def mul256_def div256_def)

text \<open>
  C6. In every paused state \<open>deposit\<close> is rejected by \<open>whenNotPaused\<close> before anything
  else is looked at, and no state comes back. \<open>withdraw\<close> and \<open>emergencyWithdraw\<close> give
  the result they give in the same state with the flag cleared: the same error, or the
  same new state with the flag still set.
\<close>

theorem pause_blocks_deposit_only:
  "paused s \<Longrightarrow>
     deposit e pid v s = Inl (Revert ''Pausable: paused'')
     \<and> withdraw e pid v s
         = map_sum id (\<lambda>t. t\<lparr>paused := True\<rparr>) (withdraw e pid v (s\<lparr>paused := False\<rparr>))
     \<and> emergencyWithdraw e pid s
         = map_sum id (\<lambda>t. t\<lparr>paused := True\<rparr>) (emergencyWithdraw e pid (s\<lparr>paused := False\<rparr>))"
proof -
  assume p: "paused s"
  then have s: "(s\<lparr>paused := False\<rparr>)\<lparr>paused := True\<rparr> = s" by simp
  have "deposit e pid v s = Inl (Revert ''Pausable: paused'')"
    using p by (simp add: deposit_def)
  moreover have "withdraw e pid v s
         = map_sum id (\<lambda>t. t\<lparr>paused := True\<rparr>) (withdraw e pid v (s\<lparr>paused := False\<rparr>))"
    using withdraw_paused [where s = "s\<lparr>paused := False\<rparr>" and b = True] unfolding s .
  moreover have "emergencyWithdraw e pid s
         = map_sum id (\<lambda>t. t\<lparr>paused := True\<rparr>) (emergencyWithdraw e pid (s\<lparr>paused := False\<rparr>))"
    using emergencyWithdraw_paused [where s = "s\<lparr>paused := False\<rparr>" and b = True]
    unfolding s .
  ultimately show ?thesis by simp
qed

lemma halted_facts:
  "paused halted"
  "case withdraw (at alice 4) 0 40 halted of Inl err \<Rightarrow> False
     | Inr t \<Rightarrow> amount (userPositions t 0 alice) = 60 \<and> paused t"
  "case emergencyWithdraw (at alice 4) 0 halted of Inl err \<Rightarrow> False
     | Inr t \<Rightarrow> amount (userPositions t 0 alice) = 0 \<and> paused t"
  by (simp_all add: halted_def model_defs)

text \<open>
  In \<open>halted\<close> the contract is paused and alice has 100 staked: her deposit at block 4
  is rejected, her withdrawal of 40 and her emergency exit go through as they would
  unpaused.
\<close>

theorem pause_blocks_deposit_only_witness:
  "paused halted
   \<and> deposit (at alice 4) 0 10 halted = Inl (Revert ''Pausable: paused'')
   \<and> withdraw (at alice 4) 0 40 halted
       = map_sum id (\<lambda>t. t\<lparr>paused := True\<rparr>)
           (withdraw (at alice 4) 0 40 (halted\<lparr>paused := False\<rparr>))
   \<and> emergencyWithdraw (at alice 4) 0 halted
       = map_sum id (\<lambda>t. t\<lparr>paused := True\<rparr>)
           (emergencyWithdraw (at alice 4) 0 (halted\<lparr>paused := False\<rparr>))
   \<and> (case withdraw (at alice 4) 0 40 halted of Inl err \<Rightarrow> False
       | Inr t \<Rightarrow> amount (userPositions t 0 alice) = 60 \<and> paused t)
   \<and> (case emergencyWithdraw (at alice 4) 0 halted of Inl err \<Rightarrow> False
       | Inr t \<Rightarrow> amount (userPositions t 0 alice) = 0 \<and> paused t)"
proof -
  note w = pause_blocks_deposit_only [OF halted_facts(1), of "at alice 4" 0 40]
  note d = pause_blocks_deposit_only [OF halted_facts(1), of "at alice 4" 0 10]
  from w d halted_facts show ?thesis by blast
qed

subsection \<open>Rebalancing\<close>

text \<open>
  C8. Whenever \<open>rebalancePosition\<close> succeeds, the caller is an authorised rebalancer and
  the position is active; apart from the log, the new state is exactly what \<open>updatePool\<close>
  makes of the old one; the log gains the single event
  \<open>PositionRebalanced(user, pid, newAmount)\<close>; every position (amount, reward debt, lock
  end, active flag) is as before, every pool's \<open>totalStaked\<close> is as before, and no token
  balance or allowance has changed.
\<close>

theorem rebalancePosition_only_accrues:
  assumes "rebalancePosition e pid user newAmount s = Inr s'"
  shows "authorizedRebalancers s (msg_sender e)
    \<and> isActive (userPositions s pid user)
    \<and> updatePool e pid s = Inr (s'\<lparr>events := events s\<rparr>)
    \<and> events s' = events s @ [PositionRebalanced user pid newAmount]
    \<and> userPositions s' = userPositions s
    \<and> map totalStaked (poolInfo s') = map totalStaked (poolInfo s)
    \<and> bank s' = bank s"
proof -
  from rebalancePosition_Inr [OF assms] obtain s1 where
    pre: "authorizedRebalancers s (msg_sender e)" "isActive (userPositions s pid user)" and
    s1: "updatePool e pid s = Inr s1" and
    s': "s' = s1\<lparr>events := events s @ [PositionRebalanced user pid newAmount]\<rparr>"
    by blast
  note acc = updatePool_accrualOnly [OF s1]
  have "s'\<lparr>events := events s\<rparr> = s1"
    using accrualOnly_fields(4) [OF acc] by (simp add: s')
  with s1 have "updatePool e pid s = Inr (s'\<lparr>events := events s\<rparr>)" by simp
  moreover have "userPositions s' = userPositions s" "bank s' = bank s"
    using accrualOnly_fields [OF acc] by (simp_all add: s')
  moreover have "map totalStaked (poolInfo s') = map totalStaked (poolInfo s)"
    using accrualOnly_totalStaked [OF acc] by (simp add: s')
  moreover have "events s' = events s @ [PositionRebalanced user pid newAmount]"
    by (simp add: s')
  ultimately show ?thesis using pre by simp
qed

lemma accruing_rebalance:
  "rebalancePosition (at admin 12) 0 alice 500 accruing = Inr rebalanced"
  by (simp add: rebalanced_def accruing_def model_defs)

lemma rebalanced_fields:
  "poolInfo rebalanced =
     [\<lparr>stakingToken = tokenT, rewardToken = tokenR, allocPoint = 50, lastRewardBlock = 12,
        accRewardPerShare = 4545454545454545454000000000, totalStaked = 1000,
        minLockPeriod = 0, isEmergencyWithdrawEnabled = False\<rparr>,
      \<lparr>stakingToken = tokenR, rewardToken = tokenT, allocPoint = 60, lastRewardBlock = 1,
        accRewardPerShare = 0, totalStaked = 0, minLockPeriod = 0,
        isEmergencyWithdrawEnabled = False\<rparr>]"
  by (simp add: rebalanced_def accruing_def model_defs)

text \<open>
  In \<open>accruing\<close> the owner's request at block 12 succeeds: pool 0 accrues to block 12,
  the event is logged, positions, stakes and balances stay. The same request from alice,
  who is not authorised, is rejected.
\<close>

theorem rebalancePosition_only_accrues_witness:
  "rebalancePosition (at admin 12) 0 alice 500 accruing = Inr rebalanced
   \<and> authorizedRebalancers accruing (msg_sender (at admin 12))
   \<and> isActive (userPositions accruing 0 alice)
   \<and> updatePool (at admin 12) 0 accruing = Inr (rebalanced\<lparr>events := events accruing\<rparr>)
   \<and> events rebalanced = events accruing @ [PositionRebalanced alice 0 500]
   \<and> userPositions rebalanced = userPositions accruing
   \<and> map totalStaked (poolInfo rebalanced) = map totalStaked (poolInfo accruing)
   \<and> bank rebalanced = bank accruing
   \<and> accRewardPerShare (poolInfo rebalanced ! 0) = 4545454545454545454000000000
   \<and> rebalancePosition (at alice 12) 0 alice 500 accruing = Inl (Revert ''Not authorized'')"
proof -
  have "rebalancePosition (at alice 12) 0 alice 500 accruing = Inl (Revert ''Not authorized'')"
    by (simp add: accruing_def model_defs)
  with rebalancePosition_only_accrues [OF accruing_rebalance] accruing_rebalance
  show ?thesis by (simp add: rebalanced_fields)
qed

subsection \<open>A pool of weight zero\<close>

text \<open>
  C9 does not hold of the code. \<open>addPool\<close> takes a weight of 0; with that as the only
  pool \<open>totalAllocPoint\<close> is 0, and once somebody has staked, every accrual at a later
  height divides by it and reverts with panic \<open>0x12\<close>. In \<open>zeroWeight\<close>, reached by one
  \<open>addPool\<close> and one \<open>deposit\<close>, that takes down \<open>updatePool\<close>, \<open>deposit\<close>,
  \<open>withdraw\<close>, \<open>massUpdatePools\<close> and with it \<open>addPool\<close> and \<open>setRewardPerBlock\<close>.
  That lasts as long as the pool holds stake: the weight cannot be repaired meanwhile,
  and the stake can leave only through the emergency exit, which never accrues, once the
  owner has enabled it. An empty pool accrues without dividing, so \<open>addPool\<close> works
  again after that.
\<close>

theorem zero_weight_pool_divides_by_zero:
  "lastRewardBlock (poolInfo zeroWeight ! 0) < block_number (at alice 3)
   \<and> 0 < totalStaked (poolInfo zeroWeight ! 0)
   \<and> totalAllocPoint zeroWeight = 0
   \<and> updatePool (at alice 3) 0 zeroWeight = Inl (Panic 0x12)
   \<and> deposit (at alice 3) 0 1 zeroWeight = Inl (Panic 0x12)
   \<and> withdraw (at alice 3) 0 100 zeroWeight = Inl (Panic 0x12)
   \<and> massUpdatePools (at admin 3) zeroWeight = Inl (Panic 0x12)
   \<and> addPool (at admin 3) tokenR tokenT 10 0 zeroWeight = Inl (Panic 0x12)
   \<and> setRewardPerBlock (at admin 3) 1 zeroWeight = Inl (Panic 0x12)"
  by (simp add: zeroWeight_def model_defs)

subsection \<open>Topping up\<close>

text \<open>
  C10. After every successful deposit by an account whose position in the pool is active,
  the position's \<open>lockEndTime\<close> is the time of the deposit plus the pool's
  \<open>minLockPeriod\<close>, and the stake is the old stake plus the deposit. The new lock covers
  all of it: until that time every withdrawal by the account, of any part of the stake,
  is rejected as still locked.
\<close>

theorem deposit_relocks_whole_stake:
  assumes "deposit e pid v s = Inr s'"
    and "isActive (userPositions s pid (msg_sender e))"
  shows "lockEndTime (userPositions s' pid (msg_sender e))
           = block_timestamp e + minLockPeriod (poolInfo s ! pid)
    \<and> amount (userPositions s' pid (msg_sender e))
           = amount (userPositions s pid (msg_sender e)) + v
    \<and> (\<forall>e2 w. msg_sender e2 = msg_sender e
          \<and> w \<le> amount (userPositions s pid (msg_sender e)) + v
          \<and> block_timestamp e2 < block_timestamp e + minLockPeriod (poolInfo s ! pid)
          \<longrightarrow> withdraw e2 pid w s' = Inl (Revert ''Position still locked''))"
proof -
  from deposit_Inr [OF assms(1)] obtain acc lb b evs where
    pid: "pid < length (poolInfo s)" and
    s': "s' = s\<lparr>poolInfo := (poolInfo s)[pid := (poolInfo s ! pid)
                   \<lparr>accRewardPerShare := acc, lastRewardBlock := lb,
                    totalStaked := totalStaked (poolInfo s ! pid) + v\<rparr>],
              userPositions := (userPositions s)(pid := (userPositions s pid)
                 (msg_sender e := (userPositions s pid (msg_sender e))
                    \<lparr>amount := amount (userPositions s pid (msg_sender e)) + v,
                     posLastRewardBlock := block_number e,
                     rewardDebt := (amount (userPositions s pid (msg_sender e)) + v) * acc
                                     div PRECISION,
                     lockEndTime := block_timestamp e + minLockPeriod (poolInfo s ! pid),
                     isActive := True\<rparr>)),
              bank := b, events := evs\<rparr>"
    by blast
  show ?thesis
    using pid by (simp add: s' withdraw_def)
qed

lemma exitable_topUp: "deposit (at alice 400) 0 50 exitable = Inr toppedUp"
  by (simp add: toppedUp_def exitable_def model_defs)

lemma toppedUp_fields:
  "userPositions toppedUp 0 alice =
     \<lparr>amount = 150, posLastRewardBlock = 400, rewardDebt = 597000000000000000000,
      lockEndTime = 8400, isActive = True\<rparr>"
  by (simp add: toppedUp_def exitable_def model_defs)

text \<open>
  In \<open>exitable\<close> alice's 100 units were locked until time 3624. She adds 50 at block 400
  (time 4800), when the first lock has long expired: the lock end becomes 8400, and at
  block 401 she cannot withdraw even the 100 units that had been free.
\<close>

theorem deposit_relocks_whole_stake_witness:
  "deposit (at alice 400) 0 50 exitable = Inr toppedUp
   \<and> isActive (userPositions exitable 0 (msg_sender (at alice 400)))
   \<and> lockEndTime (userPositions exitable 0 alice) < block_timestamp (at alice 400)
   \<and> lockEndTime (userPositions toppedUp 0 alice) = 8400
   \<and> amount (userPositions toppedUp 0 alice) = 150
   \<and> withdraw (at alice 401) 0 100 toppedUp = Inl (Revert ''Position still locked'')"
  using deposit_relocks_whole_stake [OF exitable_topUp]
  by (simp add: exitable_fields toppedUp_fields at_fields exitable_topUp)

end
